theory Spec2Isabelle
  imports Complex_Main "HOL-Library.Monad_Syntax"
begin

section \<open>CT reconstruction (\<^verbatim>\<open>src/Ass/A4/ct_parallel02.cpp\<close>)\<close>

text \<open>
  A shallow embedding of the reconstruction program. The program's \<^verbatim>\<open>float\<close> and
  \<^verbatim>\<open>double\<close> values are kept abstract: they are values of two type parameters, and the
  arithmetic the program performs on them is a record of operations that every function
  of the model takes as its first argument. A theorem stated for all such records holds
  in particular for IEEE single and double precision, whatever their rounding.

  A \<^verbatim>\<open>std::vector\<close> is a list. Reading \<^verbatim>\<open>v[k]\<close> outside the vector and overflowing an
  \<^verbatim>\<open>int\<close> are undefined in the source language; the model returns \<open>None\<close> there.
  Unsigned 64-bit values are natural numbers, with the wrap-around written out where the
  source multiplies.
\<close>

subsection \<open>Constants (lines 19-22)\<close>

definition num_projections :: int where
  "num_projections = 320"

definition detector_rows :: int where
  "detector_rows = 192"

definition detector_columns :: int where
  "detector_columns = 256"

subsection \<open>Floating-point operations, as parameters\<close>

record ('f, 'd) float_ops =
  f_zero :: 'f  \<comment> \<open>the \<^verbatim>\<open>float\<close> 0\<close>
  f_add :: "'f \<Rightarrow> 'f \<Rightarrow> 'f"
  f_mul :: "'f \<Rightarrow> 'f \<Rightarrow> 'f"
  f_div :: "'f \<Rightarrow> 'f \<Rightarrow> 'f"
  f_round :: "'f \<Rightarrow> 'f"  \<comment> \<open>\<^verbatim>\<open>std::round\<close>\<close>
  f_to_int32 :: "'f \<Rightarrow> int"  \<comment> \<open>the conversion of a \<^verbatim>\<open>float\<close> to \<^verbatim>\<open>int32_t\<close>\<close>
  d_zero :: 'd  \<comment> \<open>the \<^verbatim>\<open>double\<close> 0.0\<close>
  d_add :: "'d \<Rightarrow> 'd \<Rightarrow> 'd"
  f_to_double :: "'f \<Rightarrow> 'd"

text \<open>
  Each \<^verbatim>\<open>+=\<close> of a product is a multiplication followed by an addition. What the
  conversion to \<^verbatim>\<open>int32_t\<close> yields for a value that is not a number or too large is left to
  the parameter.

  Exact rational arithmetic, with \<^verbatim>\<open>std::round\<close> rounding halves away from zero and the
  conversion to an integer truncating. On small integers, where single precision is
  exact, it computes what the program computes; the concrete evaluations below use it on
  such values only.
\<close>

definition round_half_away :: "rat \<Rightarrow> rat" where
  "round_half_away x = (if 0 \<le> x then of_int \<lfloor>x + 1 / 2\<rfloor> else - of_int \<lfloor>- x + 1 / 2\<rfloor>)"

definition truncation :: "rat \<Rightarrow> int" where
  "truncation x = (if 0 \<le> x then \<lfloor>x\<rfloor> else \<lceil>x\<rceil>)"

definition exact_ops :: "(rat, rat) float_ops" where
  "exact_ops =
     \<lparr>f_zero = 0, f_add = (+), f_mul = (*), f_div = (/),
      f_round = round_half_away, f_to_int32 = truncation,
      d_zero = 0, d_add = (+), f_to_double = (\<lambda>x. x)\<rparr>"

subsection \<open>Machine integers\<close>

definition int_mul :: "int \<Rightarrow> int \<Rightarrow> int option" where
  \<comment> \<open>\<^verbatim>\<open>a * b\<close> on \<^verbatim>\<open>int\<close> (32 bits); overflow is undefined\<close>
  "int_mul a b = (if - (2 ^ 31) \<le> a * b \<and> a * b < 2 ^ 31 then Some (a * b) else None)"

definition to_uint64 :: "int \<Rightarrow> nat" where
  \<comment> \<open>the conversion of an \<^verbatim>\<open>int\<close> to \<^verbatim>\<open>uint64_t\<close>\<close>
  "to_uint64 x = nat (x mod 2 ^ 64)"

definition to_int :: "nat \<Rightarrow> int" where
  \<comment> \<open>the conversion of a \<^verbatim>\<open>uint64_t\<close> to \<^verbatim>\<open>int\<close>: the low 32 bits, read with a sign\<close>
  "to_int n = (let m = int (n mod 2 ^ 32) in if m < 2 ^ 31 then m else m - 2 ^ 32)"

definition to_offset :: "nat \<Rightarrow> int" where
  \<comment> \<open>the conversion of a \<^verbatim>\<open>uint64_t\<close> to a signed 64-bit offset (\<^verbatim>\<open>std::streamoff\<close>,
      \<^verbatim>\<open>MPI_Offset\<close>)\<close>
  "to_offset n = (let m = int (n mod 2 ^ 64) in if m < 2 ^ 63 then m else m - 2 ^ 64)"

definition c_div :: "int \<Rightarrow> int \<Rightarrow> int" where
  \<comment> \<open>\<^verbatim>\<open>a / b\<close> on \<^verbatim>\<open>int\<close>: the quotient is truncated towards zero\<close>
  "c_div a b = sgn a * sgn b * (\<bar>a\<bar> div \<bar>b\<bar>)"

subsection \<open>Files\<close>

text \<open>
  A file is the sequence of the \<^verbatim>\<open>float\<close>s stored in it; a byte position \<open>b\<close> is element
  \<open>b div 4\<close>. \<open>files fs name = None\<close> says that \<open>name\<close> cannot be opened for reading,
  \<open>can_write fs name\<close> that it can be opened (created, truncated) for writing, and
  \<open>seek_limit fs\<close> is the largest byte position at which the file system lets a stream be
  placed. The processes of a group read collectively; the model is one process's view of
  a read.

  The source computes counts and byte positions in 64 bits without a sign and hands them
  to functions that take them with a sign: the count of \<^verbatim>\<open>MPI_File_read_all\<close> is an \<^verbatim>\<open>int\<close>,
  the displacement of \<^verbatim>\<open>MPI_File_set_view\<close> and the position of \<^verbatim>\<open>seekp\<close> are signed 64-bit
  offsets. The model converts as the call does. A vector in memory has fewer than \<open>2\<^sup>6\<^sup>1\<close>
  elements, so its size in bytes is not converted; running out of space while the data
  are written is not modelled.
\<close>

record 'f file_system =
  files :: "string \<Rightarrow> 'f list option"
  can_write :: "string \<Rightarrow> bool"
  seek_limit :: nat

datatype error = Runtime_error string

text \<open>
  The three MPI-IO calls of \<^verbatim>\<open>read_file\<close>. Each returns an error code, which the source
  discards (the default error handler of a file is \<^verbatim>\<open>MPI_ERRORS_RETURN\<close>), so the model
  has no code either: a handle is \<open>None\<close> after a failed open, and a call that fails
  leaves everything as it was. A handle that is open holds the elements of the file from
  the start of its view on; the view of a file just opened starts at byte 0.
\<close>

definition MPI_File_open :: "'f file_system \<Rightarrow> string \<Rightarrow> 'f list option" where
  "MPI_File_open fs filename = files fs filename"

definition MPI_File_set_view :: "'f list option \<Rightarrow> int \<Rightarrow> 'f list option" where
  \<comment> \<open>the view starts at byte \<open>disp\<close>; a negative displacement is an error\<close>
  "MPI_File_set_view fh disp =
     (if disp < 0 then fh else map_option (drop (nat disp div 4)) fh)"

definition MPI_File_read_all :: "'f list option \<Rightarrow> 'f list \<Rightarrow> int \<Rightarrow> 'f list" where
  \<comment> \<open>reads up to \<open>count\<close> elements into the front of \<open>buf\<close>; the rest of \<open>buf\<close> is kept;
      a negative count is an error\<close>
  "MPI_File_read_all fh buf count =
     (case fh of
        None \<Rightarrow> buf
      | Some view \<Rightarrow>
          if count < 0 then buf
          else take (nat count) view @ drop (length (take (nat count) view)) buf)"

definition read_file ::
  "('f, 'd) float_ops \<Rightarrow> 'f file_system \<Rightarrow> nat \<Rightarrow> nat \<Rightarrow> string \<Rightarrow> int \<Rightarrow> int \<Rightarrow> 'f list" where
  \<comment> \<open>lines 34-66\<close>
  "read_file ops fs size' offset filename mpi_rank mpi_size =
     (let offset_bin = (offset * 4) mod 2 ^ 64;
          data = replicate size' (f_zero ops);
          fh = MPI_File_open fs filename;
          fh = MPI_File_set_view fh (to_offset offset_bin);
          data = MPI_File_read_all fh data (to_int size')
      in data)"

definition write_file ::
  "('f, 'd) float_ops \<Rightarrow> 'f file_system \<Rightarrow> 'f list \<Rightarrow> nat \<Rightarrow> string \<Rightarrow> error + 'f file_system" where
  \<comment> \<open>lines 74-82: the stream truncates the file, seeks and writes, and is tested after
      the open only. A seek to a negative position or past the limit fails, and the write
      after it does nothing. The gap a seek past the end leaves is zero bytes, and nothing
      is written for an empty vector.\<close>
  "write_file ops fs data offset filename =
     (if \<not> can_write fs filename
      then Inl (Runtime_error (''Couldn't write to file: '' @ filename))
      else
        let position = to_offset ((offset * 4) mod 2 ^ 64);
            contents =
              (if position < 0 \<or> int (seek_limit fs) < position \<or> data = [] then []
               else replicate (nat position div 4) (f_zero ops) @ data)
        in Inr (fs\<lparr>files := (files fs)(filename \<mapsto> contents)\<rparr>))"

subsection \<open>The work partition (lines 177-187)\<close>

text \<open>The total projection count is a parameter \<open>P\<close>; the program runs with
  \<open>P = num_projections\<close>.\<close>

definition num_projections_l :: "int \<Rightarrow> int \<Rightarrow> int" where
  "num_projections_l P mpi_size = c_div P mpi_size"

definition start_id :: "int \<Rightarrow> int \<Rightarrow> int \<Rightarrow> int" where
  "start_id P mpi_rank mpi_size = mpi_rank * num_projections_l P mpi_size"

definition stop_id :: "int \<Rightarrow> int \<Rightarrow> int \<Rightarrow> int" where
  "stop_id P mpi_rank mpi_size =
     (if mpi_rank \<noteq> mpi_size - 1 then (mpi_rank + 1) * num_projections_l P mpi_size
      else P)"

subsection \<open>Vectors and loops\<close>

definition vector_at :: "'a list \<Rightarrow> nat \<Rightarrow> 'a option" where
  \<comment> \<open>\<^verbatim>\<open>v[k]\<close>; undefined outside the vector\<close>
  "vector_at v k = (if k < length v then Some (v ! k) else None)"

primrec for_each :: "'k list \<Rightarrow> ('k \<Rightarrow> 's \<Rightarrow> 's option) \<Rightarrow> 's \<Rightarrow> 's option" where
  \<comment> \<open>a \<^verbatim>\<open>for\<close> loop over the values \<open>ks\<close> of its counter, threading the state \<open>s\<close>\<close>
  "for_each [] body s = Some s"
| "for_each (k # ks) body s =
     (case body k s of None \<Rightarrow> None | Some s' \<Rightarrow> for_each ks body s')"

subsection \<open>\<^verbatim>\<open>std::to_string\<close> on an \<^verbatim>\<open>int\<close>\<close>

definition digit_char :: "nat \<Rightarrow> char" where
  "digit_char d = ''0123456789'' ! d"

fun digits :: "nat \<Rightarrow> string" where
  "digits n = (if n < 10 then [digit_char n] else digits (n div 10) @ [digit_char (n mod 10)])"

declare digits.simps [simp del]

definition to_string :: "int \<Rightarrow> string" where
  "to_string n = (if n < 0 then CHR ''-'' # digits (nat (- n)) else digits (nat n))"

subsection \<open>The data of a run (lines 84-152)\<close>

record 'f GlobalData =
  combined_matrix :: "'f list"
  z_voxel_coords :: "'f list"

record 'f ProjectionData =
  projection :: "'f list"
  transform_matrix :: "'f list"
  volume_weight :: "'f list"

definition load_global_data ::
  "('f, 'd) float_ops \<Rightarrow> 'f file_system \<Rightarrow> int \<Rightarrow> string \<Rightarrow> int \<Rightarrow> int \<Rightarrow>
     'f GlobalData option" where
  \<comment> \<open>lines 110-123; the sizes are computed on \<^verbatim>\<open>int\<close> and passed as \<^verbatim>\<open>uint64_t\<close>\<close>
  "load_global_data ops fs num_voxels input_dir mpi_rank mpi_size = do {
     let voxel_dir = input_dir @ ''/'' @ to_string num_voxels;
     n4 \<leftarrow> int_mul 4 num_voxels;
     n \<leftarrow> int_mul n4 num_voxels;
     let combined = read_file ops fs (to_uint64 n) 0 (voxel_dir @ ''/combined.bin'')
                      mpi_rank mpi_size;
     let zs = read_file ops fs (to_uint64 num_voxels) 0 (voxel_dir @ ''/z_voxel_coords.bin'')
                mpi_rank mpi_size;
     Some \<lparr>combined_matrix = combined, z_voxel_coords = zs\<rparr>
   }"

definition load_projection_data ::
  "('f, 'd) float_ops \<Rightarrow> 'f file_system \<Rightarrow> int \<Rightarrow> int \<Rightarrow> string \<Rightarrow> int \<Rightarrow> int \<Rightarrow>
     'f ProjectionData option" where
  \<comment> \<open>lines 132-152\<close>
  "load_projection_data ops fs projection_id num_voxels input_dir mpi_rank mpi_size = do {
     let voxel_dir = input_dir @ ''/'' @ to_string num_voxels;
     rc \<leftarrow> int_mul detector_rows detector_columns;
     pr \<leftarrow> int_mul projection_id detector_rows;
     prc \<leftarrow> int_mul pr detector_columns;
     let proj = read_file ops fs (to_uint64 rc) (to_uint64 prc) (input_dir @ ''/projections.bin'')
                  mpi_rank mpi_size;
     t3 \<leftarrow> int_mul 3 4;
     p3 \<leftarrow> int_mul projection_id 3;
     p34 \<leftarrow> int_mul p3 4;
     let tm = read_file ops fs (to_uint64 t3) (to_uint64 p34) (input_dir @ ''/transform.bin'')
                mpi_rank mpi_size;
     vv \<leftarrow> int_mul num_voxels num_voxels;
     pv \<leftarrow> int_mul projection_id num_voxels;
     pvv \<leftarrow> int_mul pv num_voxels;
     let vw = read_file ops fs (to_uint64 vv) (to_uint64 pvv) (voxel_dir @ ''/volumeweight.bin'')
                mpi_rank mpi_size;
     Some \<lparr>projection = proj, transform_matrix = tm, volume_weight = vw\<rparr>
   }"

subsection \<open>The back-projection kernel (lines 201-227)\<close>

text \<open>The body of the loop over \<open>j\<close> (lines 206-210), on the three accumulators.\<close>

definition vol_det_map_body ::
  "('f, 'd) float_ops \<Rightarrow> 'f GlobalData \<Rightarrow> 'f ProjectionData \<Rightarrow> nat \<Rightarrow> nat \<Rightarrow> nat \<Rightarrow> nat \<Rightarrow>
     'f \<times> 'f \<times> 'f \<Rightarrow> ('f \<times> 'f \<times> 'f) option" where
  "vol_det_map_body ops gdata pdata size' z i j m =
     (case m of (vol_det_map_0, vol_det_map_1, vol_det_map_2) \<Rightarrow> do {
        combined_val \<leftarrow> (if j = 2 then vector_at (z_voxel_coords gdata) z
                          else vector_at (combined_matrix gdata) (j * size' + i));
        t0 \<leftarrow> vector_at (transform_matrix pdata) j;
        t1 \<leftarrow> vector_at (transform_matrix pdata) (j + 4);
        t2 \<leftarrow> vector_at (transform_matrix pdata) (j + 4 + 4);
        Some (f_add ops vol_det_map_0 (f_mul ops combined_val t0),
              f_add ops vol_det_map_1 (f_mul ops combined_val t1),
              f_add ops vol_det_map_2 (f_mul ops combined_val t2))
      })"

definition vol_det_map ::
  "('f, 'd) float_ops \<Rightarrow> 'f GlobalData \<Rightarrow> 'f ProjectionData \<Rightarrow> nat \<Rightarrow> nat \<Rightarrow> nat \<Rightarrow>
     ('f \<times> 'f \<times> 'f) option" where
  \<comment> \<open>lines 204-211\<close>
  "vol_det_map ops gdata pdata size' z i =
     for_each [0..<4] (vol_det_map_body ops gdata pdata size' z i)
       (f_zero ops, f_zero ops, f_zero ops)"

definition voxel_body ::
  "('f, 'd) float_ops \<Rightarrow> 'f GlobalData \<Rightarrow> 'f ProjectionData \<Rightarrow> nat \<Rightarrow> nat \<Rightarrow> nat \<Rightarrow>
     'f list \<Rightarrow> 'f list option" where
  \<comment> \<open>lines 203-225: the body of the loop over \<open>i\<close>; the \<^verbatim>\<open>int\<close> index into the projection is
      converted to the vector's unsigned index\<close>
  "voxel_body ops gdata pdata size' z i recon_volume = do {
     (vol_det_map_0, vol_det_map_1, vol_det_map_2) \<leftarrow> vol_det_map ops gdata pdata size' z i;
     let map_col = f_to_int32 ops (f_round ops (f_div ops vol_det_map_0 vol_det_map_2));
     let map_row = f_to_int32 ops (f_round ops (f_div ops vol_det_map_1 vol_det_map_2));
     if map_col \<ge> 0 \<and> map_row \<ge> 0 \<and> map_col < detector_columns \<and> map_row < detector_rows
     then do {
       pixel \<leftarrow> vector_at (projection pdata)
                  (to_uint64 (map_col + map_row * detector_columns));
       weight \<leftarrow> vector_at (volume_weight pdata) i;
       old \<leftarrow> vector_at recon_volume (z * size' + i);
       Some (recon_volume[z * size' + i := f_add ops old (f_mul ops pixel weight)])
     }
     else Some recon_volume
   }"

text \<open>
  The loops over \<open>z\<close> and \<open>i\<close> (lines 200-227). The slices are distributed over threads
  in the source; no two iterations touch the same element of the volume, and the model
  runs them in the order of \<open>z\<close>.
\<close>

definition back_project ::
  "('f, 'd) float_ops \<Rightarrow> 'f GlobalData \<Rightarrow> 'f ProjectionData \<Rightarrow> int \<Rightarrow> nat \<Rightarrow>
     'f list \<Rightarrow> 'f list option" where
  "back_project ops gdata pdata num_voxels size' recon_volume =
     for_each [0..<nat num_voxels]
       (\<lambda>z. for_each [0..<size'] (\<lambda>i. voxel_body ops gdata pdata size' z i))
       recon_volume"

subsection \<open>\<^verbatim>\<open>reconstruction\<close> (lines 160-255)\<close>

text \<open>Lines 168-230: the volume one process computes from its share of the projections,
  with its size.\<close>

definition local_volume ::
  "('f, 'd) float_ops \<Rightarrow> 'f file_system \<Rightarrow> int \<Rightarrow> string \<Rightarrow> int \<Rightarrow> int \<Rightarrow>
     (nat \<times> 'f list) option" where
  "local_volume ops fs num_voxels input_dir mpi_rank mpi_size = do {
     gdata \<leftarrow> load_global_data ops fs num_voxels input_dir mpi_rank mpi_size;
     vv \<leftarrow> int_mul num_voxels num_voxels;
     vvv \<leftarrow> int_mul vv num_voxels;
     let recon_volume_size = to_uint64 vvv;
     let recon_volume = replicate recon_volume_size (f_zero ops);
     let size' = to_uint64 vv;
     _ \<leftarrow> (if mpi_size = 0 then None else Some ());
     let start = start_id num_projections mpi_rank mpi_size;
     let stop = stop_id num_projections mpi_rank mpi_size;
     recon_volume \<leftarrow>
       for_each [start..stop - 1]
         (\<lambda>projection_id recon_volume. do {
            pdata \<leftarrow> load_projection_data ops fs projection_id num_voxels input_dir
                       mpi_rank mpi_size;
            back_project ops gdata pdata num_voxels size' recon_volume
          })
         recon_volume;
     Some (recon_volume_size, recon_volume)
   }"

text \<open>
  \<^verbatim>\<open>MPI_Reduce\<close> with \<^verbatim>\<open>MPI_SUM\<close> and root 0 (line 234). The other processes of the group
  are not part of the model of one process: \<open>reduced k\<close> is the value the reduction
  delivers for element \<open>k\<close>. Only the root's receive buffer is written.
\<close>

definition MPI_Reduce :: "(nat \<Rightarrow> 'f) \<Rightarrow> 'f list \<Rightarrow> 'f list \<Rightarrow> nat \<Rightarrow> int \<Rightarrow> 'f list" where
  "MPI_Reduce reduced sendbuf recvbuf count mpi_rank =
     (if mpi_rank = 0 then map reduced [0..<count] @ drop count recvbuf else recvbuf)"

definition accumulate :: "('f, 'd) float_ops \<Rightarrow> 'f list \<Rightarrow> 'd \<Rightarrow> 'd" where
  \<comment> \<open>\<^verbatim>\<open>std::accumulate\<close> over \<^verbatim>\<open>float\<close>s from a \<^verbatim>\<open>double\<close>: the sum is formed in \<^verbatim>\<open>double\<close>\<close>
  "accumulate ops v init = foldl (\<lambda>acc x. d_add ops acc (f_to_double ops x)) init v"

text \<open>What a process prints, and the clock readings it prints (in seconds).\<close>

datatype 'd report_line =
  Checksum 'd | Elapsed_time 'd | Reading_time 'd | Writing_time 'd | Computation_time 'd

record 'd clock =
  elapsed :: 'd
  reading_time :: 'd
  writing_time :: 'd
  omp_time :: 'd

definition finalize ::
  "('f, 'd) float_ops \<Rightarrow> 'f file_system \<Rightarrow> 'd report_line list \<Rightarrow> 'd clock \<Rightarrow> 'f list \<Rightarrow>
     string \<Rightarrow> int \<Rightarrow> error + 'f file_system \<times> 'd report_line list" where
  \<comment> \<open>lines 237-254, on the files and the lines printed so far\<close>
  "finalize ops fs out clk recon_volume_final output_filename mpi_rank =
     (if mpi_rank = 0 then
        (case (if output_filename \<noteq> []
               then write_file ops fs recon_volume_final 0 output_filename
               else Inr fs) of
           Inl e \<Rightarrow> Inl e
         | Inr fs' \<Rightarrow>
             let checksum = accumulate ops recon_volume_final (d_zero ops)
             in Inr (fs', out @ [Checksum checksum, Elapsed_time (elapsed clk),
                                 Reading_time (reading_time clk), Writing_time (writing_time clk),
                                 Computation_time (omp_time clk)]))
      else Inr (fs, out))"

definition reconstruction ::
  "('f, 'd) float_ops \<Rightarrow> (nat \<Rightarrow> 'f) \<Rightarrow> 'd clock \<Rightarrow> 'f file_system \<Rightarrow> 'd report_line list \<Rightarrow>
     int \<Rightarrow> string \<Rightarrow> string \<Rightarrow> int \<Rightarrow> int \<Rightarrow>
     (error + 'f file_system \<times> 'd report_line list) option" where
  "reconstruction ops reduced clk fs out num_voxels input_dir output_filename mpi_rank mpi_size =
     do {
       (recon_volume_size, recon_volume) \<leftarrow>
         local_volume ops fs num_voxels input_dir mpi_rank mpi_size;
       let recon_volume_final = replicate recon_volume_size (f_zero ops);
       let recon_volume_final =
         MPI_Reduce reduced recon_volume recon_volume_final recon_volume_size mpi_rank;
       Some (finalize ops fs out clk recon_volume_final output_filename mpi_rank)
     }"

section \<open>Notions used in the statements\<close>

text \<open>The component \<open>j\<close> of the homogeneous coordinate the kernel multiplies with the
  transform matrix (lines 206-207).\<close>

definition homogeneous_component :: "'f GlobalData \<Rightarrow> nat \<Rightarrow> nat \<Rightarrow> nat \<Rightarrow> nat \<Rightarrow> 'f" where
  "homogeneous_component gdata size' z i j =
     (if j = 2 then z_voxel_coords gdata ! z else combined_matrix gdata ! (j * size' + i))"

text \<open>The same component as the specification describes it: an implicit 1 (here \<open>one\<close>)
  for \<open>j = 3\<close>.\<close>

definition claimed_component :: "'f \<Rightarrow> 'f GlobalData \<Rightarrow> nat \<Rightarrow> nat \<Rightarrow> nat \<Rightarrow> nat \<Rightarrow> 'f" where
  "claimed_component one gdata size' z i j =
     (if j = 0 then combined_matrix gdata ! (0 * size' + i)
      else if j = 1 then combined_matrix gdata ! (1 * size' + i)
      else if j = 2 then z_voxel_coords gdata ! z
      else one)"

text \<open>Row \<open>r\<close> of a matrix-vector product, summed from the \<^verbatim>\<open>float\<close> 0 in the order of \<open>j\<close>.\<close>

definition matrix_row_sum :: "('f, 'd) float_ops \<Rightarrow> (nat \<Rightarrow> 'f) \<Rightarrow> 'f list \<Rightarrow> nat \<Rightarrow> 'f" where
  "matrix_row_sum ops component transform r =
     foldl (\<lambda>acc j. f_add ops acc (f_mul ops (component j) (transform ! (j + 4 * r))))
       (f_zero ops) [0..<4]"

text \<open>The candidate detector column and row of a voxel (lines 213-214) and the bounds
  test (lines 218-219).\<close>

definition detector_pixel ::
  "('f, 'd) float_ops \<Rightarrow> 'f GlobalData \<Rightarrow> 'f ProjectionData \<Rightarrow> nat \<Rightarrow> nat \<Rightarrow> nat \<Rightarrow>
     (int \<times> int) option" where
  "detector_pixel ops gdata pdata size' z i =
     map_option
       (\<lambda>(m0, m1, m2). (f_to_int32 ops (f_round ops (f_div ops m0 m2)),
                         f_to_int32 ops (f_round ops (f_div ops m1 m2))))
       (vol_det_map ops gdata pdata size' z i)"

definition on_detector :: "int \<Rightarrow> int \<Rightarrow> bool" where
  "on_detector map_col map_row \<longleftrightarrow>
     0 \<le> map_col \<and> 0 \<le> map_row \<and> map_col < detector_columns \<and> map_row < detector_rows"

text \<open>The sizes of the vectors as \<^verbatim>\<open>load_global_data\<close> and \<^verbatim>\<open>load_projection_data\<close> allocate
  them, for \<open>V\<close> voxels per axis and \<open>size' = V\<^sup>2\<close>.\<close>

definition loaded_shapes :: "'f GlobalData \<Rightarrow> 'f ProjectionData \<Rightarrow> nat \<Rightarrow> nat \<Rightarrow> bool" where
  "loaded_shapes gdata pdata V size' \<longleftrightarrow>
     length (combined_matrix gdata) = 4 * size' \<and>
     length (z_voxel_coords gdata) = V \<and>
     length (projection pdata) = nat (detector_rows * detector_columns) \<and>
     length (transform_matrix pdata) = 12 \<and>
     length (volume_weight pdata) = size'"

text \<open>The value of a voxel after one projection, from its value before.\<close>

definition voxel_value ::
  "('f, 'd) float_ops \<Rightarrow> 'f GlobalData \<Rightarrow> 'f ProjectionData \<Rightarrow> nat \<Rightarrow> nat \<Rightarrow> nat \<Rightarrow> 'f \<Rightarrow> 'f" where
  "voxel_value ops gdata pdata size' z i old =
     (case detector_pixel ops gdata pdata size' z i of
        None \<Rightarrow> old
      | Some (map_col, map_row) \<Rightarrow>
          if on_detector map_col map_row
          then f_add ops old
                 (f_mul ops (projection pdata ! nat (map_col + map_row * detector_columns))
                    (volume_weight pdata ! i))
          else old)"

text \<open>What one projection adds to a voxel: 0 off the detector.\<close>

definition voxel_increment ::
  "('f, 'd) float_ops \<Rightarrow> 'f GlobalData \<Rightarrow> 'f ProjectionData \<Rightarrow> nat \<Rightarrow> nat \<Rightarrow> nat \<Rightarrow> 'f" where
  "voxel_increment ops gdata pdata size' z i =
     (case detector_pixel ops gdata pdata size' z i of
        None \<Rightarrow> f_zero ops
      | Some (map_col, map_row) \<Rightarrow>
          if on_detector map_col map_row
          then f_mul ops (projection pdata ! nat (map_col + map_row * detector_columns))
                 (volume_weight pdata ! i)
          else f_zero ops)"

text \<open>Element \<open>k\<close> of the sum of the volumes of a group, added from 0 in the order of the
  ranks.\<close>

definition group_sum :: "('f, 'd) float_ops \<Rightarrow> 'f list list \<Rightarrow> nat \<Rightarrow> 'f" where
  "group_sum ops volumes k = foldl (f_add ops) (f_zero ops) (map (\<lambda>v. v ! k) volumes)"

text \<open>The lines the coordinator prints (lines 248-253).\<close>

definition metrics :: "('f, 'd) float_ops \<Rightarrow> 'd clock \<Rightarrow> 'f list \<Rightarrow> 'd report_line list" where
  "metrics ops clk recon_volume_final =
     [Checksum (accumulate ops recon_volume_final (d_zero ops)), Elapsed_time (elapsed clk),
      Reading_time (reading_time clk), Writing_time (writing_time clk),
      Computation_time (omp_time clk)]"

section \<open>Concrete data\<close>

text \<open>
  A volume of one voxel at the origin, with homogeneous coordinate \<open>(0, 0, 0, 1)\<close>, and the
  same with \<open>2\<close> stored as its fourth component; a projection whose transform matrix sends
  \<open>(0, 0, 0, 1)\<close> to the detector pixel \<open>(c, r)\<close>, whose pixels all hold \<open>x\<close> and whose weight
  is 1; the vectors of a volume of 2048 voxels per axis whose coordinates all map to the
  detector pixel \<open>(0, 0)\<close>; a file system without files in which every file can be created,
  and one with a single file of five elements, both with files of up to 16 TiB.
\<close>

definition unit_geometry :: "rat GlobalData" where
  "unit_geometry = \<lparr>combined_matrix = [0, 0, 0, 1], z_voxel_coords = [0]\<rparr>"

definition doubled_geometry :: "rat GlobalData" where
  "doubled_geometry = \<lparr>combined_matrix = [0, 0, 0, 2], z_voxel_coords = [0]\<rparr>"

definition flat_projection :: "rat \<Rightarrow> rat \<Rightarrow> rat \<Rightarrow> rat ProjectionData" where
  "flat_projection c r x =
     \<lparr>projection = replicate 49152 x,
      transform_matrix = [0, 0, 0, c, 0, 0, 0, r, 0, 0, 0, 1],
      volume_weight = [1]\<rparr>"

definition wide_geometry :: "rat GlobalData" where
  "wide_geometry =
     \<lparr>combined_matrix = replicate (4 * 4194304) 1, z_voxel_coords = replicate 2048 0\<rparr>"

definition wide_projection :: "rat ProjectionData" where
  "wide_projection =
     \<lparr>projection = replicate 49152 5,
      transform_matrix = [0, 0, 0, 0, 0, 0, 0, 0, 0, 0, 0, 1],
      volume_weight = replicate 4194304 1\<rparr>"

definition no_files :: "rat file_system" where
  "no_files = \<lparr>files = (\<lambda>name. None), can_write = (\<lambda>name. True), seek_limit = 2 ^ 44\<rparr>"

definition three_files :: "rat file_system" where
  "three_files =
     \<lparr>files = [''transform.bin'' \<mapsto> [1, 2, 3, 4, 5]], can_write = (\<lambda>name. False),
      seek_limit = 2 ^ 44\<rparr>"

definition unit_clock :: "rat clock" where
  "unit_clock = \<lparr>elapsed = 4, reading_time = 1, writing_time = 1, omp_time = 2\<rparr>"

section \<open>Properties\<close>

subsection \<open>The work partition\<close>

lemma c_div_nonneg: "0 \<le> a \<Longrightarrow> 0 < b \<Longrightarrow> c_div a b = a div b"
  by (cases "a = 0") (simp_all add: c_div_def)

lemma equal_blocks_union:
  fixes q :: int
  assumes "0 \<le> q"
  shows "(\<Union>r\<in>{0..<int n}. {r * q..<(r + 1) * q}) = {0..<int n * q}"
proof (induction n)
  case 0
  show ?case by simp
next
  case (Suc n)
  have split: "{0..<int (Suc n)} = insert (int n) {0..<int n}"
    by auto
  have le: "int n * q \<le> (int n + 1) * q"
    using assms by (simp add: distrib_right)
  have "(\<Union>r\<in>{0..<int (Suc n)}. {r * q..<(r + 1) * q})
        = {int n * q..<(int n + 1) * q} \<union> {0..<int n * q}"
    unfolding split using Suc.IH by simp
  also have "\<dots> = {0..<(int n + 1) * q}"
  proof -
    have "0 \<le> int n * q" using assms by simp
    then show ?thesis using le by auto
  qed
  finally show ?case by (simp add: add.commute)
qed

lemma last_block_fits:
  fixes P S :: int
  assumes "0 \<le> P" "1 \<le> S"
  shows "(S - 1) * (P div S) \<le> P"
proof -
  have q0: "0 \<le> P div S" using assms by (simp add: pos_imp_zdiv_nonneg_iff)
  have "P = S * (P div S) + P mod S" by simp
  moreover have "0 \<le> P mod S" using assms by simp
  ultimately have whole: "S * (P div S) \<le> P" by linarith
  have "(S - 1) * (P div S) \<le> S * (P div S)"
    using q0 by (simp add: mult_right_mono)
  then show ?thesis using whole by linarith
qed

lemma assigned_ids_in_range:
  fixes P S r :: int
  assumes P: "0 \<le> P" and r: "0 \<le> r" "r < S"
  shows "0 \<le> start_id P r S" and "stop_id P r S \<le> P"
proof -
  have S: "1 \<le> S" using r by simp
  define q where "q = P div S"
  have q0: "0 \<le> q" using P S by (simp add: q_def pos_imp_zdiv_nonneg_iff)
  have npl: "num_projections_l P S = q"
    using P S by (simp add: num_projections_l_def c_div_nonneg q_def)
  show "0 \<le> start_id P r S"
    using r q0 by (simp add: start_id_def npl)
  show "stop_id P r S \<le> P"
  proof (cases "r = S - 1")
    case True
    then show ?thesis by (simp add: stop_id_def)
  next
    case False
    then have "r + 1 \<le> S - 1" using r by simp
    then have "(r + 1) * q \<le> (S - 1) * q" using q0 by (rule mult_right_mono)
    also have "\<dots> \<le> P" using last_block_fits [OF P S] by (simp add: q_def)
    finally show ?thesis using False by (simp add: stop_id_def npl)
  qed
qed

text \<open>
  C3. For a projection count \<open>P \<ge> 0\<close>, a group of \<open>S \<ge> 1\<close> processes and \<open>q = P div S\<close>:
  every rank \<open>r\<close> but the last is assigned \<open>[r \<sqdot> q, (r + 1) \<sqdot> q)\<close>, the last rank
  \<open>[(S - 1) \<sqdot> q, P)\<close>; the union of the \<open>S\<close> ranges is \<open>[0, P)\<close>, two ranges of different
  ranks are disjoint, and the last range has \<open>P - (S - 1) \<sqdot> q\<close> elements.
\<close>

theorem partition_tiles:
  fixes P S :: int
  assumes P: "0 \<le> P" and S: "1 \<le> S"
  shows "(\<forall>r. 0 \<le> r \<and> r < S - 1 \<longrightarrow>
            start_id P r S = r * (P div S) \<and> stop_id P r S = (r + 1) * (P div S))
       \<and> start_id P (S - 1) S = (S - 1) * (P div S) \<and> stop_id P (S - 1) S = P
       \<and> (\<Union>r\<in>{0..<S}. {start_id P r S..<stop_id P r S}) = {0..<P}
       \<and> (\<forall>r r'. 0 \<le> r \<and> r < r' \<and> r' < S \<longrightarrow>
            {start_id P r S..<stop_id P r S} \<inter> {start_id P r' S..<stop_id P r' S} = {})
       \<and> stop_id P (S - 1) S - start_id P (S - 1) S = P - (S - 1) * (P div S)"
proof -
  define q where "q = P div S"
  have q0: "0 \<le> q" using P S by (simp add: q_def pos_imp_zdiv_nonneg_iff)
  have npl: "num_projections_l P S = q"
    using P S by (simp add: num_projections_l_def c_div_nonneg q_def)
  have start: "\<And>r. start_id P r S = r * q"
    by (simp add: start_id_def npl)
  have stop_inner: "\<And>r. r \<noteq> S - 1 \<Longrightarrow> stop_id P r S = (r + 1) * q"
    by (simp add: stop_id_def npl)
  have stop_last: "stop_id P (S - 1) S = P"
    by (simp add: stop_id_def)
  have fits: "(S - 1) * q \<le> P"
    using last_block_fits [OF P S] by (simp add: q_def)
  obtain n where n: "S - 1 = int n"
    using S by (metis diff_ge_0_iff_ge nonneg_int_cases)
  have ranks: "{0..<S} = insert (S - 1) {0..<int n}"
    using S n by auto
  have inner_eq: "(\<Union>r\<in>{0..<int n}. {start_id P r S..<stop_id P r S})
                  = (\<Union>r\<in>{0..<int n}. {r * q..<(r + 1) * q})"
    using n by (intro SUP_cong refl) (simp add: start stop_inner)
  have union: "(\<Union>r\<in>{0..<S}. {start_id P r S..<stop_id P r S}) = {0..<P}"
  proof -
    have "(\<Union>r\<in>{0..<S}. {start_id P r S..<stop_id P r S})
          = {(S - 1) * q..<P} \<union> {0..<int n * q}"
      unfolding ranks using inner_eq equal_blocks_union [OF q0, of n]
      by (simp add: start stop_last)
    also have "\<dots> = {0..<P}"
    proof -
      have "0 \<le> int n * q" using q0 by simp
      then show ?thesis using fits n by auto
    qed
    finally show ?thesis .
  qed
  have disjoint: "{start_id P r S..<stop_id P r S} \<inter> {start_id P r' S..<stop_id P r' S} = {}"
    if "0 \<le> r" "r < r'" "r' < S" for r r'
  proof -
    have "stop_id P r S = (r + 1) * q"
      using that by (intro stop_inner) simp
    moreover have "(r + 1) * q \<le> r' * q"
      using that q0 by (intro mult_right_mono) simp_all
    ultimately show ?thesis
      by (auto simp: start)
  qed
  have inner: "\<forall>r. 0 \<le> r \<and> r < S - 1 \<longrightarrow>
            start_id P r S = r * (P div S) \<and> stop_id P r S = (r + 1) * (P div S)"
    by (simp add: start stop_inner q_def)
  have last: "start_id P (S - 1) S = (S - 1) * (P div S) \<and> stop_id P (S - 1) S = P"
    by (simp add: start stop_last q_def)
  have len: "stop_id P (S - 1) S - start_id P (S - 1) S = P - (S - 1) * (P div S)"
    by (simp add: start stop_last q_def)
  from inner last union disjoint len show ?thesis
    by blast
qed

theorem partition_tiles_witness:
  "(0::int) \<le> 320 \<and> (1::int) \<le> 3
   \<and> start_id 320 0 3 = 0 \<and> stop_id 320 0 3 = 106
   \<and> start_id 320 1 3 = 106 \<and> stop_id 320 1 3 = 212
   \<and> start_id 320 2 3 = 212 \<and> stop_id 320 2 3 = 320
   \<and> (\<Union>r\<in>{0..<3}. {start_id 320 r 3..<stop_id 320 r 3}) = {0..<320}
   \<and> {start_id 320 0 3..<stop_id 320 0 3} \<inter> {start_id 320 2 3..<stop_id 320 2 3} = {}
   \<and> stop_id 320 2 3 - start_id 320 2 3 = 108"
proof -
  have P: "(0::int) \<le> 320" and S: "(1::int) \<le> 3"
    by simp_all
  note tiles = partition_tiles [OF P S]
  have inner: "\<And>r. 0 \<le> r \<and> r < 2 \<Longrightarrow>
                 start_id 320 r 3 = r * 106 \<and> stop_id 320 r 3 = (r + 1) * 106"
    using tiles by simp
  have r0: "start_id 320 0 3 = 0 \<and> stop_id 320 0 3 = 106"
    using inner [of 0] by simp
  have r1: "start_id 320 1 3 = 106 \<and> stop_id 320 1 3 = 212"
    using inner [of 1] by simp
  have r2: "start_id 320 2 3 = 212 \<and> stop_id 320 2 3 = 320"
    using tiles by simp
  have union: "(\<Union>r\<in>{0..<3}. {start_id 320 r 3..<stop_id 320 r 3}) = {0..<320}"
    using tiles by blast
  have disj: "{start_id 320 0 3..<stop_id 320 0 3} \<inter> {start_id 320 2 3..<stop_id 320 2 3} = {}"
    using tiles by simp
  have len: "stop_id 320 2 3 - start_id 320 2 3 = 108"
    using tiles by simp
  from P S r0 r1 r2 union disj len show ?thesis
    by blast
qed

subsection \<open>Reading and writing files\<close>

lemma to_offset_nonneg: "n < 2 ^ 63 \<Longrightarrow> to_offset n = int n"
  by (simp add: to_offset_def)


lemma to_int_nonneg: "n < 2 ^ 31 \<Longrightarrow> to_int n = int n"
  by (simp add: to_int_def)

lemma to_int_le: "to_int n \<le> int n"
proof -
  define m where "m = int (n mod 2 ^ 32)"
  have "n mod 2 ^ 32 \<le> n"
    by (rule mod_less_eq_dividend)
  then have "m \<le> int n"
    unfolding m_def by (rule iffD2 [OF of_nat_le_iff])
  then have "(if m < 2 ^ 31 then m else m - 2 ^ 32) \<le> int n"
    by simp
  then show ?thesis
    unfolding to_int_def Let_def m_def .
qed

lemma length_MPI_File_read_all:
  assumes "count \<le> int (length buf)"
  shows "length (MPI_File_read_all fh buf count) = length buf"
  using assms by (auto simp: MPI_File_read_all_def split: option.splits)

lemma length_read_file: "length (read_file ops fs n offset filename r s) = n"
  unfolding read_file_def Let_def
  by (simp add: length_MPI_File_read_all to_int_le)

lemma read_file_available:
  assumes "files fs filename = Some contents"
    and "(offset * 4) mod 2 ^ 64 < 2 ^ 63"
    and "n < 2 ^ 31"
    and "(offset * 4) mod 2 ^ 64 div 4 + n \<le> length contents"
  shows "read_file ops fs n offset filename r s = take n (drop ((offset * 4) mod 2 ^ 64 div 4) contents)"
proof -
  have disp: "to_offset ((offset * 4) mod 2 ^ 64) = int ((offset * 4) mod 2 ^ 64)"
    using assms(2) by (rule to_offset_nonneg)
  have count: "to_int n = int n"
    using assms(3) by (rule to_int_nonneg)
  show ?thesis
    unfolding read_file_def Let_def disp count using assms(1,4)
    by (simp add: MPI_File_read_all_def MPI_File_set_view_def MPI_File_open_def)
qed



lemma write_file_at_start:
  assumes "can_write fs filename"
  shows "write_file ops fs data 0 filename = Inr (fs\<lparr>files := (files fs)(filename \<mapsto> data)\<rparr>)"
  using assms by (simp add: write_file_def to_offset_def Let_def)






text \<open>
  C8. \<^verbatim>\<open>read_file\<close> always returns a vector of \<open>n\<close> elements (\<open>length_read_file\<close>), and they
  are the \<open>n\<close> elements of the file from the offset on when the file holds that many, the
  count fits an \<^verbatim>\<open>int\<close> and the byte position a signed offset (\<open>read_file_available\<close>). It
  does not fail when the file cannot be opened: the result of
  \<^verbatim>\<open>MPI_File_open\<close> is not inspected, nothing is read, and the vector of zeros allocated
  at line 40 is returned.
\<close>

theorem read_file_unopenable:
  "files no_files ''missing.bin'' = None
   \<and> read_file exact_ops no_files 3 0 ''missing.bin'' 0 1 = [0, 0, 0]"
  by (simp add: read_file_def MPI_File_open_def MPI_File_set_view_def MPI_File_read_all_def
      no_files_def exact_ops_def numeral_3_eq_3)

text \<open>
  X1. What \<^verbatim>\<open>read_file\<close> does return: always \<open>n\<close> elements, and the \<open>n\<close> elements of the file
  from element \<open>offset\<close> on when the file can be opened and holds them, the count fits an
  \<^verbatim>\<open>int\<close> and the byte position a signed offset.
\<close>

theorem read_file_returns_elements:
  "length (read_file ops fs n offset filename mpi_rank mpi_size) = n
   \<and> (files fs filename = Some contents \<and> offset * 4 < 2 ^ 63 \<and> n < 2 ^ 31
        \<and> offset + n \<le> length contents \<longrightarrow>
        read_file ops fs n offset filename mpi_rank mpi_size = take n (drop offset contents))"
proof -
  have "read_file ops fs n offset filename mpi_rank mpi_size = take n (drop offset contents)"
    if "files fs filename = Some contents" "offset * 4 < 2 ^ 63" "n < 2 ^ 31"
      "offset + n \<le> length contents"
  proof -
    have pos: "(offset * 4) mod 2 ^ 64 = offset * 4"
      using that(2) by simp
    have small: "(offset * 4) mod 2 ^ 64 < 2 ^ 63"
      unfolding pos by (rule that(2))
    have enough: "(offset * 4) mod 2 ^ 64 div 4 + n \<le> length contents"
      unfolding pos using that(4) by simp
    show ?thesis
      using read_file_available [OF that(1) small that(3) enough, of ops mpi_rank mpi_size]
      unfolding pos by simp
  qed
  then show ?thesis
    using length_read_file [of ops fs n offset filename mpi_rank mpi_size] by blast
qed

theorem read_file_returns_elements_witness:
  "files three_files ''transform.bin'' = Some [1, 2, 3, 4, 5] \<and> (1::nat) * 4 < 2 ^ 63
   \<and> (3::nat) < 2 ^ 31 \<and> 1 + 3 \<le> length [1, 2, 3, 4, 5 :: rat]
   \<and> length (read_file exact_ops three_files 3 1 ''transform.bin'' 0 1) = 3
   \<and> read_file exact_ops three_files 3 1 ''transform.bin'' 0 1 = [2, 3, 4]"
proof -
  have f: "files three_files ''transform.bin'' = Some [1, 2, 3, 4, 5]"
    by (simp add: three_files_def)
  have o: "(1::nat) * 4 < 2 ^ 63" and c: "(3::nat) < 2 ^ 31"
    and l: "1 + 3 \<le> length [1, 2, 3, 4, 5 :: rat]"
    by simp_all
  note r = read_file_returns_elements [of exact_ops three_files 3 1 "''transform.bin''" 0 1
      "[1, 2, 3, 4, 5]"]
  have len: "length (read_file exact_ops three_files 3 1 ''transform.bin'' 0 1) = 3"
    using r by blast
  have "read_file exact_ops three_files 3 1 ''transform.bin'' 0 1 = take 3 (drop 1 [1, 2, 3, 4, 5])"
    using r f o c l by blast
  then have elems: "read_file exact_ops three_files 3 1 ''transform.bin'' 0 1 = [2, 3, 4]"
    by (simp add: numeral_3_eq_3)
  from f o c l len elems show ?thesis by blast
qed

subsection \<open>The accumulators\<close>

lemma upt_4: "[0..<4] = [0, 1, 2, 3::nat]"
  by (simp add: upt_rec)

lemma vector_at_in: "k < length v \<Longrightarrow> vector_at v k = Some (v ! k)"
  by (simp add: vector_at_def)

lemma vol_det_map_closed:
  assumes z: "z < length (z_voxel_coords gdata)"
    and i: "3 * size' + i < length (combined_matrix gdata)"
    and t: "length (transform_matrix pdata) = 12"
  shows "vol_det_map ops gdata pdata size' z i =
           Some (matrix_row_sum ops (homogeneous_component gdata size' z i) (transform_matrix pdata) 0,
                 matrix_row_sum ops (homogeneous_component gdata size' z i) (transform_matrix pdata) 1,
                 matrix_row_sum ops (homogeneous_component gdata size' z i) (transform_matrix pdata) 2)"
proof -
  have c0: "i < length (combined_matrix gdata)"
    and c1: "size' + i < length (combined_matrix gdata)"
    using i by linarith+
  show ?thesis
    by (simp add: vol_det_map_def upt_4 vol_det_map_body_def matrix_row_sum_def
        homogeneous_component_def vector_at_in z t c0 c1 i)
qed

text \<open>
  C1, as the code has it. For vectors of the loaded sizes, every slice \<open>z < V\<close> and every
  index \<open>i < V\<^sup>2\<close>, the three accumulators are rows 0, 1 and 2 of the product of the
  transform matrix with the coordinate whose components are \<open>combined_matrix[0 \<sqdot> V\<^sup>2 + i]\<close>,
  \<open>combined_matrix[1 \<sqdot> V\<^sup>2 + i]\<close>, \<open>z_voxel_coords[z]\<close> and \<open>combined_matrix[3 \<sqdot> V\<^sup>2 + i]\<close>:
  the fourth component is read from the table, it is not an implicit 1.
\<close>

theorem accumulators_matrix_vector:
  assumes "loaded_shapes gdata pdata V size'" and "z < V" and "i < size'"
  shows "vol_det_map ops gdata pdata size' z i =
           Some (matrix_row_sum ops (homogeneous_component gdata size' z i) (transform_matrix pdata) 0,
                 matrix_row_sum ops (homogeneous_component gdata size' z i) (transform_matrix pdata) 1,
                 matrix_row_sum ops (homogeneous_component gdata size' z i) (transform_matrix pdata) 2)"
  using assms by (intro vol_det_map_closed) (simp_all add: loaded_shapes_def)

theorem accumulators_matrix_vector_witness:
  "loaded_shapes doubled_geometry (flat_projection 3 2 5) 1 1 \<and> (0::nat) < 1
   \<and> homogeneous_component doubled_geometry 1 0 0 3 = 2
   \<and> vol_det_map exact_ops doubled_geometry (flat_projection 3 2 5) 1 0 0 = Some (6, 4, 2)"
proof -
  have shapes: "loaded_shapes doubled_geometry (flat_projection 3 2 5) 1 1"
    by (simp add: loaded_shapes_def doubled_geometry_def flat_projection_def
        detector_rows_def detector_columns_def)
  have pos: "(0::nat) < 1" by simp
  have "vol_det_map exact_ops doubled_geometry (flat_projection 3 2 5) 1 0 0 = Some (6, 4, 2)"
    unfolding accumulators_matrix_vector [OF shapes pos pos]
    by (simp add: matrix_row_sum_def upt_4 homogeneous_component_def doubled_geometry_def
        flat_projection_def exact_ops_def)
  moreover have "homogeneous_component doubled_geometry 1 0 0 3 = 2"
    by (simp add: homogeneous_component_def doubled_geometry_def)
  ultimately show ?thesis using shapes pos by blast
qed

text \<open>
  C1 as stated fails where the fourth row of \<open>combined_matrix\<close> is not 1: with 2 stored
  there and the transform rows \<open>(0, 0, 0, 3)\<close>, \<open>(0, 0, 0, 2)\<close>, \<open>(0, 0, 0, 1)\<close> the accumulators
  are \<open>(6, 4, 2)\<close>, where the product with an implicit 1 is \<open>(3, 2, 1)\<close>.
\<close>

theorem implicit_one_counterexample:
  "vol_det_map exact_ops doubled_geometry (flat_projection 3 2 5) 1 0 0 = Some (6, 4, 2)
   \<and> vol_det_map exact_ops doubled_geometry (flat_projection 3 2 5) 1 0 0
       \<noteq> Some (matrix_row_sum exact_ops (claimed_component 1 doubled_geometry 1 0 0)
                   (transform_matrix (flat_projection 3 2 5)) 0,
                 matrix_row_sum exact_ops (claimed_component 1 doubled_geometry 1 0 0)
                   (transform_matrix (flat_projection 3 2 5)) 1,
                 matrix_row_sum exact_ops (claimed_component 1 doubled_geometry 1 0 0)
                   (transform_matrix (flat_projection 3 2 5)) 2)
   \<and> matrix_row_sum exact_ops (claimed_component 1 doubled_geometry 1 0 0)
        (transform_matrix (flat_projection 3 2 5)) 0 = 3
   \<and> matrix_row_sum exact_ops (claimed_component 1 doubled_geometry 1 0 0)
        (transform_matrix (flat_projection 3 2 5)) 1 = 2
   \<and> matrix_row_sum exact_ops (claimed_component 1 doubled_geometry 1 0 0)
        (transform_matrix (flat_projection 3 2 5)) 2 = 1"
  by (simp add: vol_det_map_def upt_4 vol_det_map_body_def vector_at_def matrix_row_sum_def
      claimed_component_def doubled_geometry_def flat_projection_def exact_ops_def)

subsection \<open>One projection\<close>

lemma pixel_index_bound:
  assumes "on_detector map_col map_row"
  shows "0 \<le> map_col + map_row * detector_columns"
    and "map_col + map_row * detector_columns < detector_rows * detector_columns"
proof -
  from assms have c: "0 \<le> map_col" "map_col \<le> 255" and r: "0 \<le> map_row" "map_row \<le> 191"
    by (simp_all add: on_detector_def detector_columns_def detector_rows_def)
  show "0 \<le> map_col + map_row * detector_columns"
    using c r by (simp add: detector_columns_def)
  show "map_col + map_row * detector_columns < detector_rows * detector_columns"
    using c r by (simp add: detector_columns_def detector_rows_def)
qed

lemma voxel_index_bound:
  fixes z i V size' :: nat
  assumes "z < V" "i < size'"
  shows "z * size' + i < V * size'"
proof -
  have "z * size' + i < z * size' + size'" using assms by simp
  also have "\<dots> = Suc z * size'" by simp
  also have "\<dots> \<le> V * size'" using assms by (intro mult_le_mono1) simp
  finally show ?thesis .
qed

lemma voxel_body_update:
  assumes shapes: "loaded_shapes gdata pdata V size'"
    and z: "z < V" and i: "i < size'" and len: "length v = V * size'"
  shows "voxel_body ops gdata pdata size' z i v
         = Some (v[z * size' + i := voxel_value ops gdata pdata size' z i (v ! (z * size' + i))])"
proof -
  have zs: "z < length (z_voxel_coords gdata)"
    and cm: "3 * size' + i < length (combined_matrix gdata)"
    and tm: "length (transform_matrix pdata) = 12"
    and w: "i < length (volume_weight pdata)"
    using shapes z i by (simp_all add: loaded_shapes_def)
  note m = vol_det_map_closed [OF zs cm tm, of ops]
  have idx: "z * size' + i < length v"
    using voxel_index_bound [OF z i] len by simp
  have pix: "vector_at (projection pdata) (to_uint64 (c + r * detector_columns))
             = Some (projection pdata ! nat (c + r * detector_columns))"
    if "0 \<le> c" "0 \<le> r" "c < detector_columns" "r < detector_rows" for c r
  proof -
    have on: "on_detector c r" using that by (simp add: on_detector_def)
    note bound = pixel_index_bound [OF on]
    have "c + r * detector_columns < 2 ^ 64"
      using bound(2) by (simp add: detector_rows_def detector_columns_def)
    then have "to_uint64 (c + r * detector_columns) = nat (c + r * detector_columns)"
      using bound(1) by (simp add: to_uint64_def)
    moreover have "nat (c + r * detector_columns) < length (projection pdata)"
      using bound shapes by (simp add: loaded_shapes_def)
    ultimately show ?thesis by (simp add: vector_at_in)
  qed
  show ?thesis
    by (simp add: voxel_body_def m voxel_value_def detector_pixel_def Let_def on_detector_def
        vector_at_in w idx pix)
qed

lemma for_each_append:
  "for_each (xs @ ys) body s =
     (case for_each xs body s of None \<Rightarrow> None | Some s' \<Rightarrow> for_each ys body s')"
  by (induction xs arbitrary: s) (simp_all split: option.splits)

lemma for_each_map: "for_each (map f xs) body s = for_each xs (\<lambda>x. body (f x)) s"
  by (induction xs arbitrary: s) (simp_all split: option.splits)

lemma for_each_nested:
  "for_each zs (\<lambda>z. for_each js (body z)) s
   = for_each (List.product zs js) (\<lambda>(z, j). body z j) s"
  by (induction zs arbitrary: s) (simp_all add: for_each_append for_each_map split: option.splits)

lemma for_each_updates:
  assumes "\<And>k v. k \<in> set ks \<Longrightarrow> length v = n \<Longrightarrow> body k v = Some (v[idx k := g k (v ! idx k)])"
    and "\<And>k. k \<in> set ks \<Longrightarrow> idx k < n"
    and "distinct (map idx ks)"
    and "length v = n"
  shows "\<exists>v'. for_each ks body v = Some v' \<and> length v' = n
           \<and> (\<forall>k\<in>set ks. v' ! idx k = g k (v ! idx k))
           \<and> (\<forall>m. m \<notin> idx ` set ks \<longrightarrow> v' ! m = v ! m)"
  using assms
proof (induction ks arbitrary: v)
  case Nil
  then show ?case by simp
next
  case (Cons k ks)
  let ?w = "v[idx k := g k (v ! idx k)]"
  have step: "body k v = Some ?w"
    using Cons.prems(1) [of k v] Cons.prems(4) by simp
  have fresh: "idx k \<notin> idx ` set ks" and dist: "distinct (map idx ks)"
    using Cons.prems(3) by simp_all
  have "\<exists>v'. for_each ks body ?w = Some v' \<and> length v' = n
           \<and> (\<forall>k\<in>set ks. v' ! idx k = g k (?w ! idx k))
           \<and> (\<forall>m. m \<notin> idx ` set ks \<longrightarrow> v' ! m = ?w ! m)"
  proof (rule Cons.IH)
    show "\<And>k' v. k' \<in> set ks \<Longrightarrow> length v = n \<Longrightarrow> body k' v = Some (v[idx k' := g k' (v ! idx k')])"
      using Cons.prems(1) by simp
    show "\<And>k'. k' \<in> set ks \<Longrightarrow> idx k' < n" using Cons.prems(2) by simp
    show "distinct (map idx ks)" by (rule dist)
    show "length ?w = n" using Cons.prems(4) by simp
  qed
  then obtain v' where v': "for_each ks body ?w = Some v'" "length v' = n"
    and upd: "\<And>k'. k' \<in> set ks \<Longrightarrow> v' ! idx k' = g k' (?w ! idx k')"
    and rest: "\<And>m. m \<notin> idx ` set ks \<Longrightarrow> v' ! m = ?w ! m"
    by blast
  have in_range: "idx k < length v"
    using Cons.prems(2) [of k] Cons.prems(4) by simp
  have head: "v' ! idx k = g k (v ! idx k)"
    using rest [OF fresh] in_range by simp
  have tail: "v' ! idx k' = g k' (v ! idx k')" if "k' \<in> set ks" for k'
  proof -
    have "idx k' \<noteq> idx k" using fresh that by (metis imageI)
    then show ?thesis using upd [OF that] by simp
  qed
  have others: "v' ! m = v ! m" if "m \<notin> idx ` set (k # ks)" for m
  proof -
    have "m \<noteq> idx k" and "m \<notin> idx ` set ks" using that by auto
    then show ?thesis using rest [of m] by simp
  qed
  show ?case
    using step v' head tail others by auto
qed

lemma voxel_index_inj:
  fixes size' :: nat
  assumes "z * size' + i = z' * size' + i'" "i < size'" "i' < size'"
  shows "z = z' \<and> i = i'"
proof -
  have "(z * size' + i) div size' = z" "(z' * size' + i') div size' = z'"
    using assms(2,3) by simp_all
  then have "z = z'" using assms(1) by simp
  then show ?thesis using assms(1) by simp
qed

lemma voxel_indices_distinct:
  "distinct (map (\<lambda>(z, i). z * size' + i) (List.product [0..<V] [0..<size']))"
proof -
  have "inj_on (\<lambda>(z, i). z * size' + i) (set (List.product [0..<V] [0..<size']))"
    by (auto simp: inj_on_def dest: voxel_index_inj)
  moreover have "distinct (List.product [0..<V] [0..<size'])"
    by (simp add: distinct_product)
  ultimately show ?thesis by (simp add: distinct_map)
qed

lemma back_project_pointwise:
  assumes shapes: "loaded_shapes gdata pdata V size'" and len: "length v = V * size'"
  shows "\<exists>v'. back_project ops gdata pdata (int V) size' v = Some v' \<and> length v' = V * size'
           \<and> (\<forall>z i. z < V \<and> i < size' \<longrightarrow>
                 v' ! (z * size' + i) = voxel_value ops gdata pdata size' z i (v ! (z * size' + i)))"
proof -
  let ?ks = "List.product [0..<V] [0..<size']"
  let ?idx = "\<lambda>(z, i). z * size' + i"
  let ?g = "\<lambda>(z, i). voxel_value ops gdata pdata size' z i"
  let ?body = "\<lambda>(z, i). voxel_body ops gdata pdata size' z i"
  have flat: "back_project ops gdata pdata (int V) size' v = for_each ?ks ?body v"
    by (simp add: back_project_def for_each_nested)
  have "\<exists>v'. for_each ?ks ?body v = Some v' \<and> length v' = V * size'
           \<and> (\<forall>k\<in>set ?ks. v' ! ?idx k = ?g k (v ! ?idx k))
           \<and> (\<forall>m. m \<notin> ?idx ` set ?ks \<longrightarrow> v' ! m = v ! m)"
  proof (rule for_each_updates)
    show "\<And>k w. k \<in> set ?ks \<Longrightarrow> length w = V * size' \<Longrightarrow> ?body k w = Some (w[?idx k := ?g k (w ! ?idx k)])"
      using voxel_body_update [OF shapes] by auto
    show "\<And>k. k \<in> set ?ks \<Longrightarrow> ?idx k < V * size'"
      using voxel_index_bound by auto
    show "distinct (map ?idx ?ks)" by (rule voxel_indices_distinct)
    show "length v = V * size'" by (rule len)
  qed
  then obtain v' where v': "for_each ?ks ?body v = Some v'" "length v' = V * size'"
    and upd: "\<And>k. k \<in> set ?ks \<Longrightarrow> v' ! ?idx k = ?g k (v ! ?idx k)"
    by blast
  have "v' ! (z * size' + i) = voxel_value ops gdata pdata size' z i (v ! (z * size' + i))"
    if "z < V" "i < size'" for z i
    using upd [of "(z, i)"] that by simp
  then show ?thesis using flat v' by auto
qed

lemma unchanged_volume:
  assumes len: "length v' = V * size'" "length v = V * size'"
    and same: "\<And>z i. z < V \<Longrightarrow> i < size' \<Longrightarrow> v' ! (z * size' + i) = v ! (z * size' + (i::nat))"
  shows "v' = v"
proof (rule nth_equalityI)
  show "length v' = length v" using len by simp
next
  fix m
  assume "m < length v'"
  then have m: "m < V * size'" using len by simp
  then have pos: "0 < size'" by (cases "size' = 0") simp_all
  have "m div size' < V"
    using m pos by (simp add: less_mult_imp_div_less)
  moreover have "m mod size' < size'" using pos by simp
  ultimately have "v' ! (m div size' * size' + m mod size') = v ! (m div size' * size' + m mod size')"
    by (rule same)
  then show "v' ! m = v ! m" by simp
qed

lemma vol_det_map_flat:
  "vol_det_map exact_ops unit_geometry (flat_projection c r x) 1 0 0 = Some (c, r, 1)"
  by (simp add: vol_det_map_def upt_4 vol_det_map_body_def vector_at_def unit_geometry_def
      flat_projection_def exact_ops_def)

lemma round_half_away_of_int: "round_half_away (of_int k) = of_int k"
  by (simp add: round_half_away_def) linarith

lemma truncation_of_int: "truncation (of_int k) = k"
  by (simp add: truncation_def)

lemma detector_pixel_flat:
  "detector_pixel exact_ops unit_geometry (flat_projection (of_int c) (of_int r) x) 1 0 0
     = Some (c, r)"
  unfolding detector_pixel_def vol_det_map_flat
  by (simp add: exact_ops_def round_half_away_of_int truncation_of_int)

lemma shapes_flat: "loaded_shapes unit_geometry (flat_projection c r x) 1 1"
  by (simp add: loaded_shapes_def unit_geometry_def flat_projection_def
      detector_rows_def detector_columns_def)

text \<open>
  C2. For vectors of the loaded sizes and every voxel \<open>(z, i)\<close>, processing one projection
  returns a volume (no failure is signalled, on or off the detector), the voxel has a
  candidate column and row, and the new value of \<open>volume[z \<sqdot> V\<^sup>2 + i]\<close> is the old one plus
  \<open>projection[col + row \<sqdot> detector_columns] * volume_weight[i]\<close> if the candidate passes the
  bounds test, and the old value otherwise.
\<close>

theorem masked_accumulation:
  assumes "loaded_shapes gdata pdata V size'" and "length v = V * size'"
    and "z < V" and "i < size'"
  shows "\<exists>v' map_col map_row.
           back_project ops gdata pdata (int V) size' v = Some v'
           \<and> detector_pixel ops gdata pdata size' z i = Some (map_col, map_row)
           \<and> v' ! (z * size' + i) =
               (if on_detector map_col map_row
                then f_add ops (v ! (z * size' + i))
                       (f_mul ops (projection pdata ! nat (map_col + map_row * detector_columns))
                          (volume_weight pdata ! i))
                else v ! (z * size' + i))"
proof -
  obtain v' where v': "back_project ops gdata pdata (int V) size' v = Some v'"
    and entry: "v' ! (z * size' + i) = voxel_value ops gdata pdata size' z i (v ! (z * size' + i))"
    using back_project_pointwise [OF assms(1,2), of ops] assms(3,4) by blast
  have zs: "z < length (z_voxel_coords gdata)"
    and cm: "3 * size' + i < length (combined_matrix gdata)"
    and tm: "length (transform_matrix pdata) = 12"
    using assms by (simp_all add: loaded_shapes_def)
  obtain map_col map_row where px: "detector_pixel ops gdata pdata size' z i = Some (map_col, map_row)"
    by (simp add: detector_pixel_def vol_det_map_closed [OF zs cm tm])
  show ?thesis
    using v' px entry by (simp add: voxel_value_def)
qed

theorem masked_accumulation_witness:
  "loaded_shapes unit_geometry (flat_projection 7 9 5) 1 1 \<and> length [0::rat] = 1 * 1 \<and> (0::nat) < 1
   \<and> (\<exists>v'. back_project exact_ops unit_geometry (flat_projection 7 9 5) (int 1) 1 [0] = Some v'
          \<and> detector_pixel exact_ops unit_geometry (flat_projection 7 9 5) 1 0 0 = Some (7, 9)
          \<and> on_detector 7 9 \<and> v' ! 0 = 5)
   \<and> loaded_shapes unit_geometry (flat_projection (- 1) 9 5) 1 1
   \<and> (\<exists>v'. back_project exact_ops unit_geometry (flat_projection (- 1) 9 5) (int 1) 1 [0] = Some v'
          \<and> detector_pixel exact_ops unit_geometry (flat_projection (- 1) 9 5) 1 0 0 = Some (- 1, 9)
          \<and> \<not> on_detector (- 1) 9 \<and> v' ! 0 = 0)"
proof -
  have len: "length [0::rat] = 1 * 1" and pos: "(0::nat) < 1"
    by simp_all
  have px_in: "detector_pixel exact_ops unit_geometry (flat_projection 7 9 5) 1 0 0 = Some (7, 9)"
    using detector_pixel_flat [of 7 9 5] by simp
  have px_out: "detector_pixel exact_ops unit_geometry (flat_projection (- 1) 9 5) 1 0 0 = Some (- 1, 9)"
    using detector_pixel_flat [of "- 1" 9 5] by simp
  have on: "on_detector 7 9" and off: "\<not> on_detector (- 1) 9"
    by (simp_all add: on_detector_def detector_rows_def detector_columns_def)
  have inside: "\<exists>v'. back_project exact_ops unit_geometry (flat_projection 7 9 5) (int 1) 1 [0] = Some v'
          \<and> detector_pixel exact_ops unit_geometry (flat_projection 7 9 5) 1 0 0 = Some (7, 9)
          \<and> on_detector 7 9 \<and> v' ! 0 = 5"
    using masked_accumulation [OF shapes_flat len pos pos, where ops = exact_ops and c1 = 7 and r1 = 9 and x1 = 5] px_in on
    by (auto simp: flat_projection_def exact_ops_def detector_columns_def)
  have outside: "\<exists>v'. back_project exact_ops unit_geometry (flat_projection (- 1) 9 5) (int 1) 1 [0] = Some v'
          \<and> detector_pixel exact_ops unit_geometry (flat_projection (- 1) 9 5) 1 0 0 = Some (- 1, 9)
          \<and> \<not> on_detector (- 1) 9 \<and> v' ! 0 = 0"
    using masked_accumulation [OF shapes_flat len pos pos, where ops = exact_ops and c1 = "- 1" and r1 = 9 and x1 = 5] px_out off
    by auto
  from shapes_flat len pos inside outside show ?thesis by blast
qed

text \<open>
  C6, as the code has it. If every voxel maps to the last detector pixel
  \<open>(detector_columns - 1, detector_rows - 1)\<close>, every voxel \<open>(z, i)\<close> receives the contribution
  \<open>projection[detector_rows \<sqdot> detector_columns - 1] * volume_weight[i]\<close>, whatever its value;
  if every voxel maps to \<open>(detector_columns, 0)\<close>, the volume is returned unchanged.
\<close>

theorem boundary_pixels:
  assumes "loaded_shapes gdata pdata V size'" and "length v = V * size'"
  shows "((\<forall>z i. z < V \<and> i < size' \<longrightarrow>
             detector_pixel ops gdata pdata size' z i
               = Some (detector_columns - 1, detector_rows - 1)) \<longrightarrow>
          (\<exists>v'. back_project ops gdata pdata (int V) size' v = Some v'
             \<and> (\<forall>z i. z < V \<and> i < size' \<longrightarrow>
                   v' ! (z * size' + i) =
                     f_add ops (v ! (z * size' + i))
                       (f_mul ops (projection pdata ! nat (detector_rows * detector_columns - 1))
                          (volume_weight pdata ! i)))))
       \<and> ((\<forall>z i. z < V \<and> i < size' \<longrightarrow>
              detector_pixel ops gdata pdata size' z i = Some (detector_columns, 0)) \<longrightarrow>
           back_project ops gdata pdata (int V) size' v = Some v)"
proof -
  obtain v' where run: "back_project ops gdata pdata (int V) size' v = Some v'"
    and len: "length v' = V * size'"
    and entry: "\<And>z i. z < V \<Longrightarrow> i < size' \<Longrightarrow>
                  v' ! (z * size' + i) = voxel_value ops gdata pdata size' z i (v ! (z * size' + i))"
    using back_project_pointwise [OF assms, of ops] by blast
  have last_pixel: "on_detector (detector_columns - 1) (detector_rows - 1)"
    and last_index: "detector_columns - 1 + (detector_rows - 1) * detector_columns
                     = detector_rows * detector_columns - 1"
    and past_last: "\<not> on_detector detector_columns 0"
    by (simp_all add: on_detector_def detector_rows_def detector_columns_def)
  have corner: "\<forall>z i. z < V \<and> i < size' \<longrightarrow>
                   v' ! (z * size' + i) =
                     f_add ops (v ! (z * size' + i))
                       (f_mul ops (projection pdata ! nat (detector_rows * detector_columns - 1))
                          (volume_weight pdata ! i))"
    if "\<forall>z i. z < V \<and> i < size' \<longrightarrow>
          detector_pixel ops gdata pdata size' z i = Some (detector_columns - 1, detector_rows - 1)"
    using that entry last_pixel last_index by (simp add: voxel_value_def)
  have outside: "v' = v"
    if "\<forall>z i. z < V \<and> i < size' \<longrightarrow>
          detector_pixel ops gdata pdata size' z i = Some (detector_columns, 0)"
  proof (rule unchanged_volume [OF len assms(2)])
    fix z i
    assume "z < V" "i < size'"
    then show "v' ! (z * size' + i) = v ! (z * size' + i)"
      using that entry past_last by (simp add: voxel_value_def)
  qed
  show ?thesis
    using run corner outside by blast
qed

theorem boundary_pixels_witness:
  "loaded_shapes unit_geometry (flat_projection 255 191 5) 1 1 \<and> length [0::rat] = 1 * 1
   \<and> detector_pixel exact_ops unit_geometry (flat_projection 255 191 5) 1 0 0
        = Some (detector_columns - 1, detector_rows - 1)
   \<and> (\<exists>v'. back_project exact_ops unit_geometry (flat_projection 255 191 5) (int 1) 1 [0] = Some v'
          \<and> v' ! 0 = 5)
   \<and> loaded_shapes unit_geometry (flat_projection 256 0 5) 1 1
   \<and> detector_pixel exact_ops unit_geometry (flat_projection 256 0 5) 1 0 0
        = Some (detector_columns, 0)
   \<and> back_project exact_ops unit_geometry (flat_projection 256 0 5) (int 1) 1 [0] = Some [0]"
proof -
  have len: "length [0::rat] = 1 * 1"
    by simp
  have px_last: "detector_pixel exact_ops unit_geometry (flat_projection 255 191 5) 1 0 0
                   = Some (detector_columns - 1, detector_rows - 1)"
    using detector_pixel_flat [of 255 191 5] by (simp add: detector_rows_def detector_columns_def)
  have px_past: "detector_pixel exact_ops unit_geometry (flat_projection 256 0 5) 1 0 0
                   = Some (detector_columns, 0)"
    using detector_pixel_flat [of 256 0 5] by (simp add: detector_columns_def)
  note corner = boundary_pixels [OF shapes_flat len, where ops = exact_ops and c1 = 255 and r1 = 191 and x1 = 5,
      THEN conjunct1]
  note past = boundary_pixels [OF shapes_flat len, where ops = exact_ops and c1 = 256 and r1 = 0 and x1 = 5,
      THEN conjunct2]
  have hit: "\<exists>v'. back_project exact_ops unit_geometry (flat_projection 255 191 5) (int 1) 1 [0] = Some v'
          \<and> v' ! 0 = 5"
    using corner px_last
    by (auto simp: flat_projection_def exact_ops_def detector_rows_def detector_columns_def)
  have miss: "back_project exact_ops unit_geometry (flat_projection 256 0 5) (int 1) 1 [0] = Some [0]"
    using past px_past by simp
  from shapes_flat len px_last hit px_past miss show ?thesis by blast
qed

text \<open>
  C6 as stated fails where the last pixel holds 0: the only voxel maps to the last pixel,
  its contribution is \<open>0 * 1\<close>, and the volume stays zero.
\<close>

theorem zero_pixel_counterexample:
  "detector_pixel exact_ops unit_geometry (flat_projection 255 191 0) 1 0 0
     = Some (detector_columns - 1, detector_rows - 1)
   \<and> f_mul exact_ops (projection (flat_projection 255 191 0) ! 49151)
        (volume_weight (flat_projection 255 191 0) ! 0) = 0
   \<and> back_project exact_ops unit_geometry (flat_projection 255 191 0) 1 1 [0] = Some [0]"
proof -
  have px: "detector_pixel exact_ops unit_geometry (flat_projection 255 191 0) 1 0 0
              = Some (255, 191)"
    using detector_pixel_flat [of 255 191 0] by simp
  have len: "length [0::rat] = 1 * 1"
    by simp
  obtain v' where run: "back_project exact_ops unit_geometry (flat_projection 255 191 0) (int 1) 1 [0] = Some v'"
    and l: "length v' = 1 * 1"
    and entry: "v' ! (0 * 1 + 0) = voxel_value exact_ops unit_geometry (flat_projection 255 191 0) 1 0 0 ([0] ! (0 * 1 + 0))"
    using back_project_pointwise [OF shapes_flat len, where ops = exact_ops and c1 = 255 and r1 = 191 and x1 = 0]
    by auto
  have "voxel_value exact_ops unit_geometry (flat_projection 255 191 0) 1 0 0 0 = 0"
    unfolding voxel_value_def px
    by (simp add: on_detector_def detector_rows_def detector_columns_def flat_projection_def exact_ops_def)
  then have "v' ! 0 = 0" using entry by simp
  then have "v' = [0]" using l by (cases v') simp_all
  moreover have "f_mul exact_ops (projection (flat_projection 255 191 0) ! 49151)
        (volume_weight (flat_projection 255 191 0) ! 0) = 0"
    by (simp add: flat_projection_def exact_ops_def)
  ultimately show ?thesis using run px by (simp add: detector_rows_def detector_columns_def)
qed

subsection \<open>All projections of a process\<close>

lemma int_mul_in_range:
  "- 2147483648 \<le> a * b \<Longrightarrow> a * b < 2147483648 \<Longrightarrow> int_mul a b = Some (a * b)"
  by (simp add: int_mul_def)

lemma to_uint64_nonneg: "0 \<le> x \<Longrightarrow> x < 18446744073709551616 \<Longrightarrow> to_uint64 x = nat x"
  by (simp add: to_uint64_def)

lemma square_bound:
  fixes V :: int
  assumes "0 \<le> V" "V \<le> 1290"
  shows "0 \<le> V * V" and "V * V \<le> 1664100"
proof -
  show "0 \<le> V * V" using assms by simp
  have "V * V \<le> 1290 * 1290" using assms by (intro mult_mono [of V 1290 V 1290]) simp_all
  then show "V * V \<le> 1664100" by simp
qed

lemma cube_bound:
  fixes V :: int
  assumes "0 \<le> V" "V \<le> 1290"
  shows "0 \<le> V * V * V" and "V * V * V \<le> 2146689000"
proof -
  note sq = square_bound [OF assms]
  show "0 \<le> V * V * V" using sq assms by simp
  have "V * V * V \<le> 1664100 * 1290"
    using sq assms by (intro mult_mono [of "V * V" 1664100 V 1290]) simp_all
  then show "V * V * V \<le> 2146689000" by simp
qed

lemma load_global_data_shapes:
  assumes V: "0 \<le> V" "V \<le> 1290"
  shows "\<exists>g. load_global_data ops fs V dir r s = Some g
           \<and> length (combined_matrix g) = 4 * nat (V * V) \<and> length (z_voxel_coords g) = nat V"
proof -
  note sq = square_bound [OF V]
  have m1: "int_mul 4 V = Some (4 * V)"
    using V by (intro int_mul_in_range) linarith+
  have m2: "int_mul (4 * V) V = Some (4 * V * V)"
    using sq by (intro int_mul_in_range) linarith+
  have u1: "to_uint64 (4 * V * V) = 4 * nat (V * V)"
  proof -
    have "to_uint64 (4 * (V * V)) = nat (4 * (V * V))"
      using sq by (intro to_uint64_nonneg) linarith+
    also have "\<dots> = 4 * nat (V * V)" using sq by (simp add: nat_mult_distrib)
    finally show ?thesis by (simp add: mult.assoc)
  qed
  have u2: "to_uint64 V = nat V"
    using V by (intro to_uint64_nonneg) linarith+
  show ?thesis
    by (simp add: load_global_data_def m1 m2 u1 u2 length_read_file Let_def)
qed

lemma load_projection_data_shapes:
  assumes V: "0 \<le> V" "V \<le> 1290" and p: "0 \<le> projection_id" "projection_id < 320"
  shows "\<exists>pd. load_projection_data ops fs projection_id V dir r s = Some pd
           \<and> length (projection pd) = nat (detector_rows * detector_columns)
           \<and> length (transform_matrix pd) = 12
           \<and> length (volume_weight pd) = nat (V * V)"
proof -
  note sq = square_bound [OF V]
  have pV: "0 \<le> projection_id * V" "projection_id * V \<le> 319 * 1290"
  proof -
    show "0 \<le> projection_id * V" using p V by simp
    show "projection_id * V \<le> 319 * 1290"
      using p V by (intro mult_mono [of projection_id 319 V 1290]) simp_all
  qed
  have pVV: "0 \<le> projection_id * V * V" "projection_id * V * V \<le> 319 * 1290 * 1290"
  proof -
    show "0 \<le> projection_id * V * V" using pV V by simp
    have "projection_id * V * V \<le> (319 * 1290) * 1290"
      using pV V by (intro mult_mono [of "projection_id * V" "319 * 1290" V 1290]) simp_all
    then show "projection_id * V * V \<le> 319 * 1290 * 1290" by simp
  qed
  have m1: "int_mul detector_rows detector_columns = Some (detector_rows * detector_columns)"
    by (simp add: int_mul_def detector_rows_def detector_columns_def)
  have m2: "int_mul projection_id detector_rows = Some (projection_id * detector_rows)"
    using p by (simp add: int_mul_def detector_rows_def)
  have m3: "int_mul (projection_id * detector_rows) detector_columns
            = Some (projection_id * detector_rows * detector_columns)"
    using p by (simp add: int_mul_def detector_rows_def detector_columns_def)
  have m4: "int_mul 3 4 = Some 12"
    by (simp add: int_mul_def)
  have m5: "int_mul projection_id 3 = Some (projection_id * 3)"
    using p by (intro int_mul_in_range) linarith+
  have m6: "int_mul (projection_id * 3) 4 = Some (projection_id * 3 * 4)"
    using p by (intro int_mul_in_range) linarith+
  have m7: "int_mul V V = Some (V * V)"
    using sq by (intro int_mul_in_range) linarith+
  have m8: "int_mul projection_id V = Some (projection_id * V)"
    using pV by (intro int_mul_in_range) linarith+
  have m9: "int_mul (projection_id * V) V = Some (projection_id * V * V)"
    using pVV by (intro int_mul_in_range) linarith+
  have u1: "to_uint64 (detector_rows * detector_columns) = nat (detector_rows * detector_columns)"
    by (simp add: to_uint64_def detector_rows_def detector_columns_def)
  have u2: "to_uint64 12 = 12"
    by (simp add: to_uint64_def)
  have u3: "to_uint64 (V * V) = nat (V * V)"
    using sq by (intro to_uint64_nonneg) linarith+
  show ?thesis
    by (simp add: load_projection_data_def m1 m2 m3 m4 m5 m6 m7 m8 m9 u1 u2 u3
        length_read_file Let_def)
qed

lemma for_each_invariant:
  assumes "I s"
    and "\<And>k s. k \<in> set ks \<Longrightarrow> I s \<Longrightarrow> \<exists>s'. body k s = Some s' \<and> I s'"
  shows "\<exists>s'. for_each ks body s = Some s' \<and> I s'"
  using assms
proof (induction ks arbitrary: s)
  case Nil
  then show ?case by simp
next
  case (Cons k ks)
  from Cons.prems(2) [of k s] Cons.prems(1) obtain t where t: "body k s = Some t" "I t"
    by auto
  have "\<exists>s'. for_each ks body t = Some s' \<and> I s'"
    using t(2) Cons.prems(2) by (intro Cons.IH) simp_all
  then show ?case using t(1) by simp
qed

lemma local_volume_defined:
  fixes ops :: "('f, 'd) float_ops"
  assumes V: "0 \<le> V" "V \<le> 1290" and r: "0 \<le> mpi_rank" "mpi_rank < mpi_size"
  shows "\<exists>v. local_volume ops fs V dir mpi_rank mpi_size = Some (nat (V * V * V), v)
           \<and> length v = nat (V * V * V)"
proof -
  note sq = square_bound [OF V] and cu = cube_bound [OF V]
  obtain g where g: "load_global_data ops fs V dir mpi_rank mpi_size = Some g"
    and gc: "length (combined_matrix g) = 4 * nat (V * V)"
    and gz: "length (z_voxel_coords g) = nat V"
    using load_global_data_shapes [OF V] by blast
  have m1: "int_mul V V = Some (V * V)"
    using sq by (intro int_mul_in_range) linarith+
  have m2: "int_mul (V * V) V = Some (V * V * V)"
    using cu by (intro int_mul_in_range) linarith+
  have u1: "to_uint64 (V * V * V) = nat (V * V * V)"
    using cu by (intro to_uint64_nonneg) linarith+
  have u2: "to_uint64 (V * V) = nat (V * V)"
    using sq by (intro to_uint64_nonneg) linarith+
  have size0: "mpi_size \<noteq> 0" using r by simp
  have vol: "nat (V * V * V) = nat V * nat (V * V)"
    using V sq by (simp add: nat_mult_distrib mult.commute)
  let ?start = "start_id num_projections mpi_rank mpi_size"
  let ?stop = "stop_id num_projections mpi_rank mpi_size"
  let ?body = "\<lambda>projection_id recon_volume.
      load_projection_data ops fs projection_id V dir mpi_rank mpi_size \<bind>
        (\<lambda>pdata. back_project ops g pdata V (nat (V * V)) recon_volume)"
  have ids: "0 \<le> ?start" "?stop \<le> 320"
    using assigned_ids_in_range [of num_projections mpi_rank mpi_size] r
    by (simp_all add: num_projections_def)
  have "\<exists>v. for_each [?start..?stop - 1] ?body (replicate (nat (V * V * V)) (f_zero ops)) = Some v
           \<and> length v = nat (V * V * V)"
  proof (rule for_each_invariant [where I = "\<lambda>v. length v = nat (V * V * V)"])
    show "length (replicate (nat (V * V * V)) (f_zero ops)) = nat (V * V * V)" by simp
  next
    fix k and v :: "'f list"
    assume k: "k \<in> set [?start..?stop - 1]" and len: "length v = nat (V * V * V)"
    from k ids have k': "0 \<le> k" "k < 320" by simp_all
    obtain pd where pd: "load_projection_data ops fs k V dir mpi_rank mpi_size = Some pd"
      and shapes: "length (projection pd) = nat (detector_rows * detector_columns)"
        "length (transform_matrix pd) = 12" "length (volume_weight pd) = nat (V * V)"
      using load_projection_data_shapes [OF V k'] by blast
    have "loaded_shapes g pd (nat V) (nat (V * V))"
      using gc gz shapes by (simp add: loaded_shapes_def)
    moreover have "length v = nat V * nat (V * V)"
      using len vol by simp
    ultimately have "\<exists>v'. back_project ops g pd (int (nat V)) (nat (V * V)) v = Some v'
                       \<and> length v' = nat V * nat (V * V)"
      using back_project_pointwise [where ops = ops and v = v] by blast
    then obtain v' where "back_project ops g pd V (nat (V * V)) v = Some v'"
      "length v' = nat (V * V * V)"
      using vol V by auto
    then show "\<exists>s'. ?body k v = Some s' \<and> length s' = nat (V * V * V)"
      using pd by simp
  qed
  then obtain v where "for_each [?start..?stop - 1] ?body
                          (replicate (nat (V * V * V)) (f_zero ops)) = Some v"
    and "length v = nat (V * V * V)"
    by blast
  then show ?thesis
    by (simp add: local_volume_def g m1 m2 u1 u2 size0 Let_def)
qed

lemma local_volume_size:
  assumes "local_volume ops fs V dir mpi_rank mpi_size = Some (n, v)" and V: "0 \<le> V"
  shows "n = nat (V * V * V)"
proof -
  from assms(1) obtain vv vvv where m: "int_mul V V = Some vv" "int_mul vv V = Some vvv"
    and n: "n = to_uint64 vvv"
    by (auto simp: local_volume_def Let_def bind_eq_Some_conv)
  from m have vv: "vv = V * V" and vvv: "vvv = V * V * V" and range: "V * V * V < 2 ^ 31"
    by (auto simp: int_mul_def split: if_splits)
  have "0 \<le> V * V * V" using V by simp
  then show ?thesis using n vvv range by (simp add: to_uint64_def)
qed

text \<open>
  X3. A candidate that passes the bounds test indexes the projection inside
  \<open>[0, detector_rows \<sqdot> detector_columns)\<close>, and \<open>z \<sqdot> V\<^sup>2 + i\<close> lies inside \<open>[0, V\<^sup>3)\<close> for
  \<open>z < V\<close> and \<open>i < V\<^sup>2\<close>. For \<open>0 \<le> V \<le> 1290\<close>, where \<open>V\<^sup>3\<close> fits an \<^verbatim>\<open>int\<close>, and a rank of the
  group, the run over all assigned projections returns a volume of \<open>V\<^sup>3\<close> elements: no
  vector is accessed outside its bounds, whatever the files hold.
\<close>

theorem accesses_in_bounds:
  fixes ops :: "('f, 'd) float_ops"
  assumes "0 \<le> num_voxels" and "num_voxels \<le> 1290" and "0 \<le> mpi_rank" and "mpi_rank < mpi_size"
  shows "(\<forall>map_col map_row. on_detector map_col map_row \<longrightarrow>
            0 \<le> map_col + map_row * detector_columns
            \<and> map_col + map_row * detector_columns < detector_rows * detector_columns)
       \<and> (\<forall>z i. z < nat num_voxels \<and> i < nat (num_voxels * num_voxels) \<longrightarrow>
            z * nat (num_voxels * num_voxels) + i < nat (num_voxels * num_voxels * num_voxels))
       \<and> (\<exists>v. local_volume ops fs num_voxels input_dir mpi_rank mpi_size
                 = Some (nat (num_voxels * num_voxels * num_voxels), v)
              \<and> length v = nat (num_voxels * num_voxels * num_voxels))"
proof -
  have pixel: "\<forall>map_col map_row. on_detector map_col map_row \<longrightarrow>
            0 \<le> map_col + map_row * detector_columns
            \<and> map_col + map_row * detector_columns < detector_rows * detector_columns"
    using pixel_index_bound by blast
  have cube: "nat (num_voxels * num_voxels * num_voxels) = nat num_voxels * nat (num_voxels * num_voxels)"
    using assms(1) by (simp add: nat_mult_distrib mult.commute)
  have voxel: "\<forall>z i. z < nat num_voxels \<and> i < nat (num_voxels * num_voxels) \<longrightarrow>
            z * nat (num_voxels * num_voxels) + i < nat (num_voxels * num_voxels * num_voxels)"
    unfolding cube using voxel_index_bound by blast
  from pixel voxel local_volume_defined [OF assms, of ops fs input_dir] show ?thesis
    by blast
qed

theorem accesses_in_bounds_witness:
  "(0::int) \<le> 2 \<and> (2::int) \<le> 1290 \<and> (0::int) \<le> 1 \<and> (1::int) < 3
   \<and> on_detector 255 191 \<and> 0 \<le> 255 + 191 * detector_columns
   \<and> 255 + 191 * detector_columns < detector_rows * detector_columns
   \<and> (1::nat) < nat 2 \<and> (3::nat) < nat (2 * 2) \<and> 1 * nat (2 * 2) + 3 < nat (2 * 2 * 2)
   \<and> (\<exists>v. local_volume exact_ops no_files 2 ''input'' 1 3 = Some (nat (2 * 2 * 2), v)
          \<and> length v = nat (2 * 2 * 2))"
proof -
  have V: "(0::int) \<le> 2" "(2::int) \<le> 1290" and r: "(0::int) \<le> 1" "(1::int) < 3"
    by simp_all
  note safe = accesses_in_bounds [OF V r, of exact_ops no_files "''input''"]
  have on: "on_detector 255 191"
    by (simp add: on_detector_def detector_rows_def detector_columns_def)
  have pixel: "0 \<le> 255 + 191 * detector_columns
               \<and> 255 + 191 * detector_columns < detector_rows * detector_columns"
    using safe on by blast
  have zi: "(1::nat) < nat 2 \<and> (3::nat) < nat (2 * 2)"
    by simp
  have voxel: "1 * nat (2 * 2) + 3 < nat (2 * 2 * 2)"
    using safe zi by blast
  have run: "\<exists>v. local_volume exact_ops no_files 2 ''input'' 1 3 = Some (nat (2 * 2 * 2), v)
          \<and> length v = nat (2 * 2 * 2)"
    using safe by blast
  from V r on pixel zi voxel run show ?thesis by blast
qed

text \<open>
  C10. The accesses are not in bounds for every \<open>V\<close>. Line 170 forms \<open>V\<^sup>3\<close> on \<^verbatim>\<open>int\<close>. At
  \<open>V = 2048\<close> the square \<open>2\<^sup>2\<^sup>2\<close> fits and the cube \<open>2\<^sup>3\<^sup>3\<close> does not: the product is undefined,
  and so is the run of any rank on any files. The 32 bits the multiplication leaves are 0,
  so the volume of the compiled program has no element, and the kernel, run on such a
  volume with vectors of the loaded sizes, accesses it outside its bounds at the first
  voxel whose candidate passes the bounds test, here the voxel \<open>(0, 0)\<close> with candidate
  \<open>(0, 0)\<close>.
\<close>

theorem volume_size_overflow:
  "int_mul 2048 2048 = Some 4194304 \<and> int_mul 4194304 2048 = None
   \<and> local_volume ops fs 2048 input_dir mpi_rank mpi_size = None
   \<and> to_uint64 ((2048 * 2048 * 2048) mod 2 ^ 32) = 0
   \<and> loaded_shapes wide_geometry wide_projection 2048 4194304
   \<and> detector_pixel exact_ops wide_geometry wide_projection 4194304 0 0 = Some (0, 0)
   \<and> on_detector 0 0
   \<and> back_project exact_ops wide_geometry wide_projection 2048 4194304 [] = None"
proof -
  have square: "int_mul 2048 2048 = Some 4194304" and cube: "int_mul 4194304 2048 = None"
    by (simp_all add: int_mul_def)
  have undefined: "local_volume ops fs 2048 input_dir mpi_rank mpi_size = None"
    by (simp add: local_volume_def square cube)
  have wrapped: "to_uint64 ((2048 * 2048 * 2048) mod 2 ^ 32) = 0"
    by (simp add: to_uint64_def)
  have shapes: "loaded_shapes wide_geometry wide_projection 2048 4194304"
    by (simp add: loaded_shapes_def wide_geometry_def wide_projection_def
        detector_rows_def detector_columns_def)
  have zs: "0 < length (z_voxel_coords wide_geometry)"
    and cm: "3 * 4194304 + 0 < length (combined_matrix wide_geometry)"
    and tm: "length (transform_matrix wide_projection) = 12"
    by (simp_all add: wide_geometry_def wide_projection_def)
  have m: "vol_det_map exact_ops wide_geometry wide_projection 4194304 0 0 = Some (0, 0, 1)"
    unfolding vol_det_map_closed [OF zs cm tm]
    by (simp add: matrix_row_sum_def upt_4 homogeneous_component_def wide_geometry_def
        wide_projection_def exact_ops_def)
  have rounded: "round_half_away 0 = 0" and converted: "truncation 0 = 0"
    using round_half_away_of_int [of 0] truncation_of_int [of 0] by simp_all
  have pixel: "detector_pixel exact_ops wide_geometry wide_projection 4194304 0 0 = Some (0, 0)"
    unfolding detector_pixel_def m
    by (simp add: exact_ops_def rounded converted)
  have on: "on_detector 0 0"
    by (simp add: on_detector_def detector_rows_def detector_columns_def)
  have first: "voxel_body exact_ops wide_geometry wide_projection 4194304 0 0 [] = None"
    unfolding voxel_body_def m
    by (simp add: exact_ops_def rounded converted detector_rows_def
        detector_columns_def vector_at_def to_uint64_def wide_projection_def)
  have slice: "[0..<4194304] = 0 # [Suc 0..<4194304]"
    by (rule upt_conv_Cons) simp
  have row: "for_each [0..<4194304]
               (\<lambda>i. voxel_body exact_ops wide_geometry wide_projection 4194304 0 i) [] = None"
    unfolding slice for_each.simps first by (simp only: option.case)
  have slices: "[0..<nat 2048] = 0 # [Suc 0..<nat 2048]"
    by (rule upt_conv_Cons) simp
  have run: "back_project exact_ops wide_geometry wide_projection 2048 4194304 [] = None"
    unfolding back_project_def slices for_each.simps row by (simp only: option.case)
  from square cube undefined wrapped shapes pixel on run show ?thesis
    by blast
qed

subsection \<open>After the reduction\<close>

lemma finalize_coordinator:
  "finalize ops fs out clk v output_filename 0 =
     (case (if output_filename \<noteq> [] then write_file ops fs v 0 output_filename else Inr fs) of
        Inl e \<Rightarrow> Inl e
      | Inr fs' \<Rightarrow> Inr (fs', out @ metrics ops clk v))"
  by (simp add: finalize_def metrics_def Let_def split: sum.splits)

lemma MPI_Reduce_root:
  "MPI_Reduce reduced sendbuf (replicate n x) n 0 = map reduced [0..<n]"
  by (simp add: MPI_Reduce_def)

lemma accumulate_map:
  "accumulate ops (map reduced ks) init
   = foldl (\<lambda>acc k. d_add ops acc (f_to_double ops (reduced k))) init ks"
  by (simp add: accumulate_def foldl_map)

text \<open>
  C9. A process whose rank is not 0 leaves the files and the output as they are. The
  coordinator prints the checksum and the four timings; with an empty output path it
  leaves the files as they are, with a path that can be opened it stores the final volume
  in that file and changes no other file, and with a path that cannot be opened the write
  fails with a runtime error.
\<close>

theorem coordinator_alone_finalizes:
  "(mpi_rank \<noteq> 0 \<longrightarrow> finalize ops fs out clk v output_filename mpi_rank = Inr (fs, out))
   \<and> (output_filename = [] \<longrightarrow>
        finalize ops fs out clk v output_filename 0 = Inr (fs, out @ metrics ops clk v))
   \<and> (output_filename \<noteq> [] \<and> can_write fs output_filename \<longrightarrow>
        finalize ops fs out clk v output_filename 0
          = Inr (fs\<lparr>files := (files fs)(output_filename \<mapsto> v)\<rparr>, out @ metrics ops clk v))
   \<and> (output_filename \<noteq> [] \<and> \<not> can_write fs output_filename \<longrightarrow>
        finalize ops fs out clk v output_filename 0
          = Inl (Runtime_error (''Couldn't write to file: '' @ output_filename)))"
proof -
  have others: "mpi_rank \<noteq> 0 \<longrightarrow> finalize ops fs out clk v output_filename mpi_rank = Inr (fs, out)"
    by (simp add: finalize_def)
  have no_path: "output_filename = [] \<longrightarrow>
        finalize ops fs out clk v output_filename 0 = Inr (fs, out @ metrics ops clk v)"
    by (simp add: finalize_coordinator)
  have written: "output_filename \<noteq> [] \<and> can_write fs output_filename \<longrightarrow>
        finalize ops fs out clk v output_filename 0
          = Inr (fs\<lparr>files := (files fs)(output_filename \<mapsto> v)\<rparr>, out @ metrics ops clk v)"
    by (simp add: finalize_coordinator write_file_at_start)
  have failed: "output_filename \<noteq> [] \<and> \<not> can_write fs output_filename \<longrightarrow>
        finalize ops fs out clk v output_filename 0
          = Inl (Runtime_error (''Couldn't write to file: '' @ output_filename))"
    by (simp add: finalize_coordinator write_file_def)
  from others no_path written failed show ?thesis by blast
qed

theorem coordinator_alone_finalizes_witness:
  "finalize exact_ops no_files [] unit_clock [5, 5] ''volume.bin'' 1 = Inr (no_files, [])
   \<and> finalize exact_ops no_files [] unit_clock [5, 5] [] 0
       = Inr (no_files, [Checksum 10, Elapsed_time 4, Reading_time 1, Writing_time 1,
                         Computation_time 2])
   \<and> can_write no_files ''volume.bin''
   \<and> finalize exact_ops no_files [] unit_clock [5, 5] ''volume.bin'' 0
       = Inr (no_files\<lparr>files := (files no_files)(''volume.bin'' \<mapsto> [5, 5])\<rparr>,
              [Checksum 10, Elapsed_time 4, Reading_time 1, Writing_time 1, Computation_time 2])
   \<and> \<not> can_write (no_files\<lparr>can_write := (\<lambda>name. False)\<rparr>) ''volume.bin''
   \<and> finalize exact_ops (no_files\<lparr>can_write := (\<lambda>name. False)\<rparr>) [] unit_clock [5, 5]
        ''volume.bin'' 0
       = Inl (Runtime_error ''Couldn't write to file: volume.bin'')"
proof -
  have m: "metrics exact_ops unit_clock [5, 5]
           = [Checksum 10, Elapsed_time 4, Reading_time 1, Writing_time 1, Computation_time 2]"
    by (simp add: metrics_def accumulate_def exact_ops_def unit_clock_def)
  have w: "can_write no_files ''volume.bin''"
    and nw: "\<not> can_write (no_files\<lparr>can_write := (\<lambda>name. False)\<rparr>) ''volume.bin''"
    by (simp_all add: no_files_def)
  note a = coordinator_alone_finalizes [of 1 exact_ops no_files "[]" unit_clock "[5, 5]" "''volume.bin''"]
  note b = coordinator_alone_finalizes [of 0 exact_ops no_files "[]" unit_clock "[5, 5]" "[]"]
  note c = coordinator_alone_finalizes [of 0 exact_ops "no_files\<lparr>can_write := (\<lambda>name. False)\<rparr>"
      "[]" unit_clock "[5, 5]" "''volume.bin''"]
  have r1: "finalize exact_ops no_files [] unit_clock [5, 5] ''volume.bin'' 1 = Inr (no_files, [])"
    using a by simp
  have r2: "finalize exact_ops no_files [] unit_clock [5, 5] [] 0
       = Inr (no_files, [Checksum 10, Elapsed_time 4, Reading_time 1, Writing_time 1,
                         Computation_time 2])"
    using b m by simp
  have r3: "finalize exact_ops no_files [] unit_clock [5, 5] ''volume.bin'' 0
       = Inr (no_files\<lparr>files := (files no_files)(''volume.bin'' \<mapsto> [5, 5])\<rparr>,
              [Checksum 10, Elapsed_time 4, Reading_time 1, Writing_time 1, Computation_time 2])"
    using a w m by simp
  have r4: "finalize exact_ops (no_files\<lparr>can_write := (\<lambda>name. False)\<rparr>) [] unit_clock [5, 5]
        ''volume.bin'' 0
       = Inl (Runtime_error ''Couldn't write to file: volume.bin'')"
    using c nw by simp
  from r1 r2 w r3 nw r4 show ?thesis by blast
qed

text \<open>
  C5. When the coordinator's run of \<^verbatim>\<open>reconstruction\<close> returns, the checksum it prints is the
  sum, formed in \<^verbatim>\<open>double\<close> from 0 in the order of the index, of the \<open>V\<^sup>3\<close> elements the
  reduction delivered, and these elements are the contents of the output file when a path
  was given.
\<close>

theorem checksum_sums_final_volume:
  assumes run: "reconstruction ops reduced clk fs out num_voxels input_dir output_filename 0 mpi_size
                = Some (Inr (fs', out'))"
    and V: "0 \<le> num_voxels"
  shows "(\<exists>rest. out' = out @ Checksum (foldl (\<lambda>acc k. d_add ops acc (f_to_double ops (reduced k)))
                                  (d_zero ops) [0..<nat (num_voxels * num_voxels * num_voxels)]) # rest)
       \<and> (output_filename \<noteq> [] \<longrightarrow>
            files fs' output_filename
              = Some (map reduced [0..<nat (num_voxels * num_voxels * num_voxels)]))"
proof -
  let ?n = "nat (num_voxels * num_voxels * num_voxels)"
  let ?final = "map reduced [0..<?n]"
  from run obtain n v where lv: "local_volume ops fs num_voxels input_dir 0 mpi_size = Some (n, v)"
    and fin: "finalize ops fs out clk (MPI_Reduce reduced v (replicate n (f_zero ops)) n 0)
                output_filename 0 = Inr (fs', out')"
    by (auto simp: reconstruction_def Let_def bind_eq_Some_conv)
  have n: "n = ?n"
    using local_volume_size [OF lv V] .
  have fin': "finalize ops fs out clk ?final output_filename 0 = Inr (fs', out')"
    using fin by (simp add: MPI_Reduce_root n)
  have printed: "out' = out @ metrics ops clk ?final"
    using fin' by (auto simp: finalize_coordinator split: if_splits sum.splits)
  have stored: "files fs' output_filename = Some ?final" if "output_filename \<noteq> []"
  proof (cases "can_write fs output_filename")
    case True
    then show ?thesis
      using fin' that by (auto simp: finalize_coordinator write_file_at_start)
  next
    case False
    then show ?thesis
      using fin' that by (simp add: finalize_coordinator write_file_def)
  qed
  show ?thesis
    using printed stored by (simp add: metrics_def accumulate_map)
qed

theorem checksum_sums_final_volume_witness:
  "\<exists>fs' out'.
     reconstruction exact_ops (\<lambda>k. 5) unit_clock no_files [] 2 ''input'' ''volume.bin'' 0 1
       = Some (Inr (fs', out'))
     \<and> (0::int) \<le> 2
     \<and> (\<exists>rest. out' = [] @ Checksum 40 # rest)
     \<and> files fs' ''volume.bin'' = Some [5, 5, 5, 5, 5, 5, 5, 5]"
proof -
  have V: "(0::int) \<le> 2" and V': "(2::int) \<le> 1290" and r: "(0::int) \<le> 0" "(0::int) < 1"
    by simp_all
  obtain v where lv: "local_volume exact_ops no_files 2 ''input'' 0 1 = Some (nat (2 * 2 * 2), v)"
    using local_volume_defined [OF V V' r, of exact_ops no_files "''input''"] by blast
  have w: "can_write no_files ''volume.bin''"
    by (simp add: no_files_def)
  obtain fs' out' where run:
    "reconstruction exact_ops (\<lambda>k. 5) unit_clock no_files [] 2 ''input'' ''volume.bin'' 0 1
       = Some (Inr (fs', out'))"
    using w by (simp add: reconstruction_def lv finalize_coordinator write_file_at_start Let_def)
  have eight: "[0..<nat (2 * 2 * 2)] = [0, 1, 2, 3, 4, 5, 6, 7]"
    by (simp add: upt_rec)
  note sum = checksum_sums_final_volume [OF run V]
  have printed: "\<exists>rest. out' = [] @ Checksum 40 # rest"
    using sum unfolding eight by (simp add: exact_ops_def)
  have stored: "files fs' ''volume.bin'' = Some [5, 5, 5, 5, 5, 5, 5, 5]"
    using sum unfolding eight by simp
  from run V printed stored show ?thesis by blast
qed

subsection \<open>The sum over a group, in exact arithmetic\<close>

lemma voxel_value_increment:
  assumes "\<And>a. f_add ops a (f_zero ops) = a"
  shows "voxel_value ops gdata pdata size' z i old
         = f_add ops old (voxel_increment ops gdata pdata size' z i)"
  using assms by (simp add: voxel_value_def voxel_increment_def split: option.splits)

lemma load_global_data_any_rank:
  "load_global_data ops fs V dir r s = load_global_data ops fs V dir r' s'"
  by (simp add: load_global_data_def read_file_def)

lemma load_projection_data_any_rank:
  "load_projection_data ops fs p V dir r s = load_projection_data ops fs p V dir r' s'"
  by (simp add: load_projection_data_def read_file_def)

lemma for_each_pointwise_fold:
  assumes "\<And>k v. k \<in> set ks \<Longrightarrow> length v = n \<Longrightarrow>
             \<exists>v'. body k v = Some v' \<and> length v' = n \<and> (\<forall>m<n. v' ! m = h k m (v ! m))"
    and "length v = n"
  shows "\<exists>v'. for_each ks body v = Some v' \<and> length v' = n
           \<and> (\<forall>m<n. v' ! m = foldl (\<lambda>a k. h k m a) (v ! m) ks)"
  using assms
proof (induction ks arbitrary: v)
  case Nil
  then show ?case by simp
next
  case (Cons k ks)
  from Cons.prems(1) [of k v] Cons.prems(2)
  obtain w where w: "body k v = Some w" "length w = n" "\<forall>m<n. w ! m = h k m (v ! m)"
    by auto
  have "\<exists>v'. for_each ks body w = Some v' \<and> length v' = n
           \<and> (\<forall>m<n. v' ! m = foldl (\<lambda>a k. h k m a) (w ! m) ks)"
    using Cons.prems(1) w(2) by (intro Cons.IH) simp_all
  then show ?case using w by auto
qed

lemma back_project_by_index:
  assumes shapes: "loaded_shapes gdata pdata V size'" and len: "length v = V * size'"
  shows "\<exists>v'. back_project ops gdata pdata (int V) size' v = Some v' \<and> length v' = V * size'
           \<and> (\<forall>m < V * size'. v' ! m
                 = voxel_value ops gdata pdata size' (m div size') (m mod size') (v ! m))"
proof -
  obtain v' where run: "back_project ops gdata pdata (int V) size' v = Some v'"
    and l: "length v' = V * size'"
    and entry: "\<And>z i. z < V \<Longrightarrow> i < size' \<Longrightarrow>
                  v' ! (z * size' + i) = voxel_value ops gdata pdata size' z i (v ! (z * size' + i))"
    using back_project_pointwise [OF assms, of ops] by blast
  have "v' ! m = voxel_value ops gdata pdata size' (m div size') (m mod size') (v ! m)"
    if m: "m < V * size'" for m
  proof -
    have pos: "0 < size'" using m by (cases "size' = 0") simp_all
    have "m div size' < V" using m pos by (simp add: less_mult_imp_div_less)
    moreover have "m mod size' < size'" using pos by simp
    ultimately show ?thesis using entry [of "m div size'" "m mod size'"] by simp
  qed
  then show ?thesis using run l by blast
qed

lemma local_volume_by_index:
  fixes ops :: "('f, 'd) float_ops"
  assumes V: "0 \<le> V" "V \<le> 1290" and r: "0 \<le> mpi_rank" "mpi_rank < mpi_size"
    and g: "load_global_data ops fs V dir 0 1 = Some g"
  shows "\<exists>v. local_volume ops fs V dir mpi_rank mpi_size = Some (nat (V * V * V), v)
           \<and> length v = nat (V * V * V)
           \<and> (\<forall>m < nat (V * V * V). v ! m
                = foldl (\<lambda>a p. voxel_value ops g (the (load_projection_data ops fs p V dir 0 1))
                                  (nat (V * V)) (m div nat (V * V)) (m mod nat (V * V)) a)
                    (f_zero ops)
                    [start_id num_projections mpi_rank mpi_size
                     ..stop_id num_projections mpi_rank mpi_size - 1])"
proof -
  note sq = square_bound [OF V] and cu = cube_bound [OF V]
  have g': "load_global_data ops fs V dir mpi_rank mpi_size = Some g"
    using g load_global_data_any_rank [of ops fs V dir mpi_rank mpi_size 0 1] by simp
  obtain g0 where "load_global_data ops fs V dir 0 1 = Some g0"
    and gc0: "length (combined_matrix g0) = 4 * nat (V * V)"
    and gz0: "length (z_voxel_coords g0) = nat V"
    using load_global_data_shapes [OF V] by blast
  with g have gc: "length (combined_matrix g) = 4 * nat (V * V)"
    and gz: "length (z_voxel_coords g) = nat V"
    by simp_all
  have m1: "int_mul V V = Some (V * V)"
    using sq by (intro int_mul_in_range) linarith+
  have m2: "int_mul (V * V) V = Some (V * V * V)"
    using cu by (intro int_mul_in_range) linarith+
  have u1: "to_uint64 (V * V * V) = nat (V * V * V)"
    using cu by (intro to_uint64_nonneg) linarith+
  have u2: "to_uint64 (V * V) = nat (V * V)"
    using sq by (intro to_uint64_nonneg) linarith+
  have size0: "mpi_size \<noteq> 0" using r by simp
  have vol: "nat (V * V * V) = nat V * nat (V * V)"
    using V sq by (simp add: nat_mult_distrib mult.commute)
  let ?n = "nat (V * V * V)"
  let ?sz = "nat (V * V)"
  let ?start = "start_id num_projections mpi_rank mpi_size"
  let ?stop = "stop_id num_projections mpi_rank mpi_size"
  let ?body = "\<lambda>projection_id recon_volume.
      load_projection_data ops fs projection_id V dir mpi_rank mpi_size \<bind>
        (\<lambda>pdata. back_project ops g pdata V ?sz recon_volume)"
  let ?h = "\<lambda>p m a. voxel_value ops g (the (load_projection_data ops fs p V dir 0 1))
                       ?sz (m div ?sz) (m mod ?sz) a"
  have ids: "0 \<le> ?start" "?stop \<le> 320"
    using assigned_ids_in_range [of num_projections mpi_rank mpi_size] r
    by (simp_all add: num_projections_def)
  have "\<exists>v. for_each [?start..?stop - 1] ?body (replicate ?n (f_zero ops)) = Some v
           \<and> length v = ?n
           \<and> (\<forall>m<?n. v ! m = foldl (\<lambda>a p. ?h p m a) (replicate ?n (f_zero ops) ! m)
                                 [?start..?stop - 1])"
  proof (rule for_each_pointwise_fold)
    show "length (replicate ?n (f_zero ops)) = ?n" by simp
  next
    fix k and v :: "'f list"
    assume k: "k \<in> set [?start..?stop - 1]" and len: "length v = ?n"
    from k ids have k': "0 \<le> k" "k < 320" by simp_all
    obtain pd where pd: "load_projection_data ops fs k V dir mpi_rank mpi_size = Some pd"
      and shapes: "length (projection pd) = nat (detector_rows * detector_columns)"
        "length (transform_matrix pd) = 12" "length (volume_weight pd) = ?sz"
      using load_projection_data_shapes [OF V k'] by blast
    have pd0: "the (load_projection_data ops fs k V dir 0 1) = pd"
      using pd load_projection_data_any_rank [of ops fs k V dir 0 1 mpi_rank mpi_size] by simp
    have "loaded_shapes g pd (nat V) ?sz"
      using gc gz shapes by (simp add: loaded_shapes_def)
    moreover have "length v = nat V * ?sz"
      using len vol by simp
    ultimately have "\<exists>v'. back_project ops g pd (int (nat V)) ?sz v = Some v'
        \<and> length v' = nat V * ?sz
        \<and> (\<forall>m < nat V * ?sz. v' ! m = voxel_value ops g pd ?sz (m div ?sz) (m mod ?sz) (v ! m))"
      using back_project_by_index [where ops = ops and v = v] by blast
    then show "\<exists>v'. ?body k v = Some v' \<and> length v' = ?n \<and> (\<forall>m<?n. v' ! m = ?h k m (v ! m))"
      using pd pd0 vol V by auto
  qed
  then obtain v where "for_each [?start..?stop - 1] ?body (replicate ?n (f_zero ops)) = Some v"
    and "length v = ?n"
    and "\<forall>m<?n. v ! m = foldl (\<lambda>a p. ?h p m a) (f_zero ops) [?start..?stop - 1]"
    by auto
  then show ?thesis
    by (simp add: local_volume_def g' m1 m2 u1 u2 size0 Let_def)
qed

lemma foldl_add_shift:
  assumes assoc: "\<And>a b c. f_add ops (f_add ops a b) c = f_add ops a (f_add ops b c)"
    and unit_r: "\<And>a. f_add ops a (f_zero ops) = a"
    and unit_l: "\<And>a. f_add ops (f_zero ops) a = a"
  shows "foldl (\<lambda>a k. f_add ops a (t k)) a ks
         = f_add ops a (foldl (\<lambda>a k. f_add ops a (t k)) (f_zero ops) ks)"
proof (induction ks arbitrary: a)
  case Nil
  show ?case by (simp add: unit_r)
next
  case (Cons k ks)
  have "foldl (\<lambda>a k. f_add ops a (t k)) (f_add ops a (t k)) ks
        = f_add ops (f_add ops a (t k)) (foldl (\<lambda>a k. f_add ops a (t k)) (f_zero ops) ks)"
    by (rule Cons.IH)
  moreover have "foldl (\<lambda>a k. f_add ops a (t k)) (t k) ks
        = f_add ops (t k) (foldl (\<lambda>a k. f_add ops a (t k)) (f_zero ops) ks)"
    by (rule Cons.IH)
  ultimately show ?case by (simp add: unit_l assoc)
qed

lemma foldl_add_concat:
  assumes assoc: "\<And>a b c. f_add ops (f_add ops a b) c = f_add ops a (f_add ops b c)"
    and unit_r: "\<And>a. f_add ops a (f_zero ops) = a"
    and unit_l: "\<And>a. f_add ops (f_zero ops) a = a"
  shows "foldl (f_add ops) (f_zero ops)
           (map (\<lambda>ks. foldl (\<lambda>a k. f_add ops a (t k)) (f_zero ops) ks) kss)
         = foldl (\<lambda>a k. f_add ops a (t k)) (f_zero ops) (concat kss)"
proof (induction kss rule: rev_induct)
  case Nil
  show ?case by simp
next
  case (snoc ks kss)
  let ?total = "foldl (\<lambda>a k. f_add ops a (t k)) (f_zero ops)"
  have "foldl (f_add ops) (f_zero ops) (map ?total (kss @ [ks]))
        = f_add ops (foldl (f_add ops) (f_zero ops) (map ?total kss)) (?total ks)"
    by simp
  also have "\<dots> = f_add ops (?total (concat kss)) (?total ks)"
    by (simp only: snoc.IH)
  also have "\<dots> = foldl (\<lambda>a k. f_add ops a (t k)) (?total (concat kss)) ks"
    by (rule foldl_add_shift [OF assms, symmetric])
  also have "\<dots> = ?total (concat (kss @ [ks]))"
    by simp
  finally show ?case .
qed

lemma upto_append:
  fixes i j k :: int
  assumes "i \<le> j" "j \<le> k + 1"
  shows "[i..j - 1] @ [j..k] = [i..k]"
proof (cases "j \<le> k")
  case True
  then show ?thesis using assms(1) by (simp add: upto_split1 [of i j k])
next
  case False
  then have "j = k + 1" using assms(2) by simp
  then show ?thesis by simp
qed

lemma equal_blocks_concat:
  fixes q :: int
  assumes "0 \<le> q"
  shows "concat (map (\<lambda>r. [int r * q..(int r + 1) * q - 1]) [0..<n]) = [0..int n * q - 1]"
proof (induction n)
  case 0
  show ?case by simp
next
  case (Suc n)
  have "0 \<le> int n * q" using assms by simp
  moreover have "int n * q \<le> (int n + 1) * q - 1 + 1"
    using assms by (simp add: distrib_right)
  ultimately have "[0..int n * q - 1] @ [int n * q..(int n + 1) * q - 1] = [0..(int n + 1) * q - 1]"
    by (rule upto_append)
  then show ?case using Suc.IH by (simp add: add.commute)
qed

lemma assigned_ranges_concat:
  fixes P S :: int
  assumes P: "0 \<le> P" and S: "1 \<le> S"
  shows "concat (map (\<lambda>r. [start_id P (int r) S..stop_id P (int r) S - 1]) [0..<nat S])
         = [0..P - 1]"
proof -
  define q where "q = P div S"
  define n where "n = nat (S - 1)"
  have q0: "0 \<le> q" using P S by (simp add: q_def pos_imp_zdiv_nonneg_iff)
  have npl: "num_projections_l P S = q"
    using P S by (simp add: num_projections_l_def c_div_nonneg q_def)
  have n: "int n = S - 1" "nat S = Suc n" using S by (simp_all add: n_def)
  have fits: "int n * q \<le> P"
    using last_block_fits [OF P S] n by (simp add: q_def)
  have inner: "[start_id P (int r) S..stop_id P (int r) S - 1] = [int r * q..(int r + 1) * q - 1]"
    if "r < n" for r
    using that n by (simp add: start_id_def stop_id_def npl)
  have last: "[start_id P (int n) S..stop_id P (int n) S - 1] = [int n * q..P - 1]"
    using n by (simp add: start_id_def stop_id_def npl)
  have "concat (map (\<lambda>r. [start_id P (int r) S..stop_id P (int r) S - 1]) [0..<n])
        = concat (map (\<lambda>r. [int r * q..(int r + 1) * q - 1]) [0..<n])"
    using inner by (intro arg_cong [where f = concat] map_cong refl) simp
  also have "\<dots> = [0..int n * q - 1]"
    by (rule equal_blocks_concat [OF q0])
  finally have blocks: "concat (map (\<lambda>r. [start_id P (int r) S..stop_id P (int r) S - 1]) [0..<n])
                        = [0..int n * q - 1]" .
  have "0 \<le> int n * q" using q0 by simp
  moreover have "int n * q \<le> P - 1 + 1" using fits by simp
  ultimately have "[0..int n * q - 1] @ [int n * q..P - 1] = [0..P - 1]"
    by (rule upto_append)
  then show ?thesis
    by (simp add: n(2) blocks last)
qed

text \<open>
  X2. Where addition is associative with 0 as its unit, as it is in exact arithmetic and is
  not in floating point, the volumes of the ranks of a group of any size, added element
  by element in the order of the ranks, are the volume a single process computes: every
  projection contributes to exactly one of them, and the sums differ in nothing but the
  placing of the parentheses.
\<close>

theorem exact_sum_independent_of_group:
  fixes ops :: "('f, 'd) float_ops"
  assumes assoc: "\<And>a b c. f_add ops (f_add ops a b) c = f_add ops a (f_add ops b c)"
    and unit_r: "\<And>a. f_add ops a (f_zero ops) = a"
    and unit_l: "\<And>a. f_add ops (f_zero ops) a = a"
    and V: "0 \<le> num_voxels" "num_voxels \<le> 1290" and S: "1 \<le> mpi_size"
  shows "\<exists>single locals.
           local_volume ops fs num_voxels input_dir 0 1
             = Some (nat (num_voxels * num_voxels * num_voxels), single)
           \<and> length locals = nat mpi_size
           \<and> (\<forall>r < nat mpi_size.
                 local_volume ops fs num_voxels input_dir (int r) mpi_size
                   = Some (nat (num_voxels * num_voxels * num_voxels), locals ! r))
           \<and> (\<forall>k < nat (num_voxels * num_voxels * num_voxels).
                 group_sum ops locals k = single ! k)"
proof -
  let ?n = "nat (num_voxels * num_voxels * num_voxels)"
  let ?sz = "nat (num_voxels * num_voxels)"
  obtain g where g: "load_global_data ops fs num_voxels input_dir 0 1 = Some g"
    using load_global_data_shapes [OF V] by blast
  define t where "t m p = voxel_increment ops g
      (the (load_projection_data ops fs p num_voxels input_dir 0 1)) ?sz (m div ?sz) (m mod ?sz)"
    for m p
  define total where "total m ps = foldl (\<lambda>a p. f_add ops a (t m p)) (f_zero ops) ps" for m ps
  have step: "voxel_value ops g (the (load_projection_data ops fs p num_voxels input_dir 0 1))
                ?sz (m div ?sz) (m mod ?sz) a = f_add ops a (t m p)" for m p a
    unfolding t_def by (rule voxel_value_increment [OF unit_r])
  have by_rank: "\<exists>v. local_volume ops fs num_voxels input_dir r s = Some (?n, v) \<and> length v = ?n
                   \<and> (\<forall>m < ?n. v ! m = total m [start_id num_projections r s
                                                ..stop_id num_projections r s - 1])"
    if "0 \<le> r" "r < s" for r s
    using local_volume_by_index [OF V that g] by (simp add: step total_def)
  have whole: "start_id num_projections 0 1 = 0" "stop_id num_projections 0 1 = num_projections"
    by (simp_all add: start_id_def stop_id_def)
  have "\<exists>v. local_volume ops fs num_voxels input_dir 0 1 = Some (?n, v) \<and> length v = ?n
          \<and> (\<forall>m < ?n. v ! m = total m [0..num_projections - 1])"
    using by_rank [of 0 1] unfolding whole by simp
  then obtain single where single: "local_volume ops fs num_voxels input_dir 0 1 = Some (?n, single)"
    and single_sum: "\<And>m. m < ?n \<Longrightarrow> single ! m = total m [0..num_projections - 1]"
    by blast
  define locals where
    "locals = map (\<lambda>r. snd (the (local_volume ops fs num_voxels input_dir (int r) mpi_size)))
                [0..<nat mpi_size]"
  have local: "local_volume ops fs num_voxels input_dir (int r) mpi_size = Some (?n, locals ! r)"
    and local_sum: "\<And>m. m < ?n \<Longrightarrow> locals ! r ! m
                     = total m [start_id num_projections (int r) mpi_size
                                ..stop_id num_projections (int r) mpi_size - 1]"
    if "r < nat mpi_size" for r
  proof -
    have "0 \<le> int r" "int r < mpi_size" using that by simp_all
    from by_rank [OF this] obtain v
      where v: "local_volume ops fs num_voxels input_dir (int r) mpi_size = Some (?n, v)"
        and sum: "\<And>m. m < ?n \<Longrightarrow> v ! m
                     = total m [start_id num_projections (int r) mpi_size
                                ..stop_id num_projections (int r) mpi_size - 1]"
      by blast
    have lr: "locals ! r = v"
      using that v by (simp add: locals_def)
    show "local_volume ops fs num_voxels input_dir (int r) mpi_size = Some (?n, locals ! r)"
      using v lr by simp
    show "\<And>m. m < ?n \<Longrightarrow> locals ! r ! m
                     = total m [start_id num_projections (int r) mpi_size
                                ..stop_id num_projections (int r) mpi_size - 1]"
      using sum lr by simp
  qed
  define ranges where
    "ranges = map (\<lambda>r. [start_id num_projections (int r) mpi_size
                          ..stop_id num_projections (int r) mpi_size - 1]) [0..<nat mpi_size]"
  have all_ids: "concat ranges = [0..num_projections - 1]"
    unfolding ranges_def
    by (rule assigned_ranges_concat) (use S in \<open>simp_all add: num_projections_def\<close>)
  have "group_sum ops locals k = single ! k" if k: "k < ?n" for k
  proof -
    have "length locals = length ranges"
      by (simp add: locals_def ranges_def)
    moreover have "locals ! r ! k = total k (ranges ! r)" if "r < length locals" for r
      using that local_sum [of r k] k by (simp add: locals_def ranges_def)
    ultimately have "map (\<lambda>v. v ! k) locals = map (total k) ranges"
      by (intro nth_equalityI) simp_all
    then have "group_sum ops locals k = foldl (f_add ops) (f_zero ops) (map (total k) ranges)"
      by (simp only: group_sum_def)
    also have "\<dots> = total k (concat ranges)"
      unfolding total_def by (rule foldl_add_concat [OF assoc unit_r unit_l])
    finally show ?thesis using single_sum [OF k] all_ids by simp
  qed
  then have sums: "\<forall>k < ?n. group_sum ops locals k = single ! k"
    by blast
  have len: "length locals = nat mpi_size"
    by (simp add: locals_def)
  have each: "\<forall>r < nat mpi_size.
                local_volume ops fs num_voxels input_dir (int r) mpi_size = Some (?n, locals ! r)"
    using local by blast
  from single len each sums show ?thesis
    by (intro exI [of _ single] exI [of _ locals] conjI)
qed

theorem exact_sum_independent_of_group_witness:
  "(0::int) \<le> 2 \<and> (2::int) \<le> 1290 \<and> (1::int) \<le> 4
   \<and> (\<exists>single locals.
         local_volume exact_ops no_files 2 ''input'' 0 1 = Some (nat (2 * 2 * 2), single)
         \<and> length locals = nat 4
         \<and> local_volume exact_ops no_files 2 ''input'' (int 3) 4 = Some (nat (2 * 2 * 2), locals ! 3)
         \<and> group_sum exact_ops locals 7 = single ! 7)"
proof -
  have V: "(0::int) \<le> 2" "(2::int) \<le> 1290" and S: "(1::int) \<le> 4"
    by simp_all
  have assoc: "\<And>a b c. f_add exact_ops (f_add exact_ops a b) c
                 = f_add exact_ops a (f_add exact_ops b c)"
    and unit_r: "\<And>a. f_add exact_ops a (f_zero exact_ops) = a"
    and unit_l: "\<And>a. f_add exact_ops (f_zero exact_ops) a = a"
    by (simp_all add: exact_ops_def)
  obtain single locals where
    "local_volume exact_ops no_files 2 ''input'' 0 1 = Some (nat (2 * 2 * 2), single)"
    "length locals = nat 4"
    "\<forall>r < nat 4. local_volume exact_ops no_files 2 ''input'' (int r) 4
                    = Some (nat (2 * 2 * 2), locals ! r)"
    "\<forall>k < nat (2 * 2 * 2). group_sum exact_ops locals k = single ! k"
    using exact_sum_independent_of_group [OF assoc unit_r unit_l V S, of no_files "''input''"]
    by blast
  moreover have "(3::nat) < nat 4" "(7::nat) < nat (2 * 2 * 2)" by simp_all
  ultimately show ?thesis using V S by blast
qed

end
